theory Spec2Isabelle
  imports Main "HOL-Library.Word" "HOL-Library.Multiset"
begin

section \<open>Errors and the distributed store\<close>

text \<open>
  Every \<^verbatim>\<open>throw\<close> of the TypeScript sources is a value of \<open>error\<close>; a function that can
  throw returns \<open>error + 'a\<close> with \<open>Inl\<close> for the exception.
  \<^item> \<open>BackendError\<close>: any exception raised by the ioredis client (connection lost, timeout,
    command rejected);
  \<^item> \<open>CircuitOpenError\<close>: \<^verbatim>\<open>new Error('Redis circuit breaker is open')\<close>;
  \<^item> \<open>NotHealthyError\<close>: \<^verbatim>\<open>new Error('Redis connection is not healthy')\<close>;
  \<^item> \<open>PipelineFailedError\<close>: \<^verbatim>\<open>new Error('Redis pipeline execution failed')\<close>;
  \<^item> \<open>InvalidCacheKeyError\<close>: \<^verbatim>\<open>new Error('Invalid cache key')\<close>;
  \<^item> \<open>TypeError\<close>: the runtime's error for reading a property of \<^verbatim>\<open>undefined\<close>.
\<close>

datatype error =
  BackendError
  | CircuitOpenError
  | NotHealthyError
  | PipelineFailedError
  | InvalidCacheKeyError
  | TypeError

text \<open>
  The store behind the ioredis client, as far as the services use it: string keys holding a
  string value with an absolute expiry instant in milliseconds. \<open>up\<close> is false while every
  command sent to it throws. A key whose expiry instant has been reached is absent.
\<close>

record redis =
  up :: bool
  kv :: "string \<rightharpoonup> (string \<times> int)"

definition redis_get :: "redis \<Rightarrow> int \<Rightarrow> string \<Rightarrow> string option" where
  "redis_get r now k =
     (case kv r k of
        None \<Rightarrow> None
      | Some (v, expiresAt) \<Rightarrow> if now < expiresAt then Some v else None)"

section \<open>DistributedLockService (distributed-lock.service.ts)\<close>

definition lockPrefix :: string where
  "lockPrefix = ''taskflow:lock:''"

text \<open>
  \<^verbatim>\<open>redis.set(key, token, 'PX', ttlMs, 'NX')\<close>: set if absent, with a time to live.
  The reply is \<^verbatim>\<open>'OK'\<close> (\<open>True\<close>) or \<^verbatim>\<open>null\<close> (\<open>False\<close>); the store rejects a time to
  live that is not positive.
\<close>

definition redis_set_px_nx ::
  "redis \<Rightarrow> int \<Rightarrow> string \<Rightarrow> string \<Rightarrow> int \<Rightarrow> error + (bool \<times> redis)" where
  "redis_set_px_nx r now k v ttlMs =
     (if \<not> up r \<or> ttlMs \<le> 0 then Inl BackendError
      else (case redis_get r now k of
              Some _ \<Rightarrow> Inr (False, r)
            | None \<Rightarrow> Inr (True, r\<lparr>kv := (kv r)(k \<mapsto> (v, now + ttlMs))\<rparr>)))"

text \<open>
  The script of \<^verbatim>\<open>releaseLock\<close>, run by \<^verbatim>\<open>redis.eval(lua, 1, key, token)\<close>:
  \<^verbatim>\<open>if redis.call('get', KEYS[1]) == ARGV[1] then return redis.call('del', KEYS[1])
  else return 0 end\<close>. \<^verbatim>\<open>del\<close> of the key just read replies 1.
\<close>

definition redis_eval_release ::
  "redis \<Rightarrow> int \<Rightarrow> string \<Rightarrow> string \<Rightarrow> error + (int \<times> redis)" where
  "redis_eval_release r now k token =
     (if \<not> up r then Inl BackendError
      else if redis_get r now k = Some token
           then Inr (1, r\<lparr>kv := (kv r)(k := None)\<rparr>)
           else Inr (0, r))"

text \<open>
  \<^verbatim>\<open>acquireLock(resource, ttlMs)\<close>; \<open>token\<close> is the value \<^verbatim>\<open>generateToken()\<close> drew.
  \<open>None\<close> is \<^verbatim>\<open>null\<close>.
\<close>

definition acquireLock ::
  "redis \<Rightarrow> int \<Rightarrow> string \<Rightarrow> string \<Rightarrow> int \<Rightarrow> string option \<times> redis" where
  "acquireLock r now token resource ttlMs =
     (let key = lockPrefix @ resource in
      case redis_set_px_nx r now key token ttlMs of
        Inr (ok, r') \<Rightarrow> (if ok then Some token else None, r')
      | Inl e \<Rightarrow> (None, r))"

definition releaseLock :: "redis \<Rightarrow> int \<Rightarrow> string \<Rightarrow> string \<Rightarrow> bool \<times> redis" where
  "releaseLock r now resource token =
     (let key = lockPrefix @ resource in
      case redis_eval_release r now key token of
        Inr (res, r') \<Rightarrow> (res = 1, r')
      | Inl e \<Rightarrow> (False, r))"

section \<open>RedisConnectionService (redis-connection.service.ts)\<close>

text \<open>
  The fields of the service that its event handlers read and write.
  \<open>health_isConnected\<close>, \<open>health_latency\<close> and \<open>health_lastError\<close> are the fields of
  \<^verbatim>\<open>connectionHealth\<close>, which \<^verbatim>\<open>getHealthStatus()\<close> reports. Each \<^verbatim>\<open>setTimeout\<close> is
  kept as the instant at which its callback is due: \<open>resetTimers\<close> for the callbacks that
  reset the breaker, \<open>reconnectTimers\<close> for those that call \<^verbatim>\<open>initializeConnection\<close>
  again. \<open>pingsInFlight\<close> counts the health-check pings that are awaited,
  \<open>testsInFlight\<close> the pings of \<^verbatim>\<open>testConnection\<close> that are awaited.
\<close>

record conn =
  isConnected :: bool
  health_isConnected :: bool
  health_latency :: int
  health_lastError :: "string option"
  reconnectAttempts :: nat
  circuitBreakerOpen :: bool
  circuitBreakerFailures :: nat
  resetTimers :: "int list"
  reconnectTimers :: "int list"
  pingsInFlight :: nat
  testsInFlight :: nat

definition maxReconnectAttempts :: nat where
  "maxReconnectAttempts = 10"

definition reconnectDelay :: int where
  "reconnectDelay = 1000"

definition circuitBreakerThreshold :: nat where
  "circuitBreakerThreshold = 5"

definition circuitBreakerTimeout :: int where
  "circuitBreakerTimeout = 30000"

text \<open>The service as constructed, before \<^verbatim>\<open>onModuleInit\<close>.\<close>

definition initial_conn :: conn where
  "initial_conn =
     \<lparr>isConnected = False, health_isConnected = False, health_latency = 0,
      health_lastError = None, reconnectAttempts = 0, circuitBreakerOpen = False,
      circuitBreakerFailures = 0, resetTimers = [], reconnectTimers = [],
      pingsInFlight = 0, testsInFlight = 0\<rparr>"

text \<open>The handle \<^verbatim>\<open>this.redis\<close> that \<^verbatim>\<open>getConnection()\<close> hands out.\<close>

datatype client = Client

text \<open>What an awaited \<^verbatim>\<open>redis.ping()\<close> does: resolve after some milliseconds, or reject.\<close>

datatype ping = Pong int | PingFails string

text \<open>The callback of the \<^verbatim>\<open>setTimeout\<close> in \<^verbatim>\<open>handleConnectionError\<close>.\<close>

definition cooldown_reset :: "conn \<Rightarrow> conn" where
  "cooldown_reset s = s\<lparr>circuitBreakerOpen := False, circuitBreakerFailures := 0\<rparr>"

definition handleConnectionError :: "int \<Rightarrow> string \<Rightarrow> conn \<Rightarrow> conn" where
  "handleConnectionError now msg s =
     (let s1 = s\<lparr>isConnected := False, health_isConnected := False,
                  health_lastError := Some msg,
                  circuitBreakerFailures := circuitBreakerFailures s + 1\<rparr>
      in if circuitBreakerFailures s1 \<ge> circuitBreakerThreshold
         then s1\<lparr>circuitBreakerOpen := True,
                 resetTimers := resetTimers s1 @ [now + circuitBreakerTimeout]\<rparr>
         else s1)"

definition attemptReconnect :: "int \<Rightarrow> conn \<Rightarrow> conn" where
  "attemptReconnect now s =
     (if reconnectAttempts s \<ge> maxReconnectAttempts then s
      else if circuitBreakerOpen s then s
      else s\<lparr>reconnectTimers :=
                reconnectTimers s @ [now + reconnectDelay * 2 ^ reconnectAttempts s]\<rparr>)"

text \<open>
  \<^verbatim>\<open>initializeConnection\<close>, called by \<^verbatim>\<open>onModuleInit\<close> and by the callback of a reconnect
  timer, is asynchronous. Before its \<^verbatim>\<open>await\<close> it reads the configuration, builds the
  client and installs the handlers, any of which can throw (\<open>PreparationThrows\<close>, for one the
  missing configuration); then \<^verbatim>\<open>testConnection\<close> sends a ping and is suspended until the
  reply. \<open>initializeConnection_begin\<close> is the part before the \<^verbatim>\<open>await\<close>,
  \<open>testConnection_end\<close> the part after it: a successful ping sets the latency and both
  connected flags and nothing else; a failed one is rethrown to the \<^verbatim>\<open>catch\<close> of
  \<^verbatim>\<open>initializeConnection\<close>, which calls \<^verbatim>\<open>handleConnectionError\<close>, as it does for an
  exception of the preparation. \<^verbatim>\<open>initializeConnection\<close> itself never throws.
\<close>

datatype preparation = Prepared | PreparationThrows string

definition initializeConnection_begin :: "int \<Rightarrow> preparation \<Rightarrow> conn \<Rightarrow> conn" where
  "initializeConnection_begin now su s =
     (case su of
        PreparationThrows msg \<Rightarrow> handleConnectionError now msg s
      | Prepared \<Rightarrow> s\<lparr>testsInFlight := testsInFlight s + 1\<rparr>)"

definition testConnection_end :: "int \<Rightarrow> ping \<Rightarrow> conn \<Rightarrow> conn" where
  "testConnection_end now p s =
     (if testsInFlight s = 0 then s
      else
        (let s1 = s\<lparr>testsInFlight := testsInFlight s - 1\<rparr> in
         case p of
           Pong latency \<Rightarrow>
             s1\<lparr>health_latency := latency, isConnected := True,
                health_isConnected := True\<rparr>
         | PingFails msg \<Rightarrow> handleConnectionError now msg s1))"

text \<open>
  The run-time fires a pending reconnect callback once its instant has come; the delays
  differ, so any pending one that is due can be the one: here the first such in the
  list. The callback awaits \<^verbatim>\<open>initializeConnection\<close>.
\<close>

fun remove_due :: "int \<Rightarrow> int list \<Rightarrow> int list option" where
  "remove_due now [] = None"
| "remove_due now (due # rest) =
     (if due \<le> now then Some rest
      else (case remove_due now rest of
              None \<Rightarrow> None
            | Some rest' \<Rightarrow> Some (due # rest')))"

definition reconnect_fire :: "int \<Rightarrow> preparation \<Rightarrow> conn \<Rightarrow> conn" where
  "reconnect_fire now su s =
     (case remove_due now (reconnectTimers s) of
        None \<Rightarrow> s
      | Some rest \<Rightarrow> initializeConnection_begin now su (s\<lparr>reconnectTimers := rest\<rparr>))"

text \<open>
  \<^verbatim>\<open>disconnect()\<close>, called by \<^verbatim>\<open>onModuleDestroy\<close>: it clears the two flags if
  \<^verbatim>\<open>this.redis\<close> has been assigned (\<open>hasClient\<close>) and does nothing otherwise.
\<close>

definition disconnect :: "bool \<Rightarrow> conn \<Rightarrow> conn" where
  "disconnect hasClient s =
     (if hasClient then s\<lparr>isConnected := False, health_isConnected := False\<rparr> else s)"

text \<open>The handlers installed by \<^verbatim>\<open>setupEventHandlers\<close>.\<close>

definition on_connect :: "conn \<Rightarrow> conn" where
  "on_connect s =
     s\<lparr>isConnected := True, health_isConnected := True, reconnectAttempts := 0,
       circuitBreakerOpen := False, circuitBreakerFailures := 0\<rparr>"

definition on_ready :: "conn \<Rightarrow> conn" where
  "on_ready s = s\<lparr>isConnected := True, health_isConnected := True\<rparr>"

definition on_error :: "int \<Rightarrow> string \<Rightarrow> conn \<Rightarrow> conn" where
  "on_error now msg s = handleConnectionError now msg s"

definition on_close :: "int \<Rightarrow> conn \<Rightarrow> conn" where
  "on_close now s =
     attemptReconnect now (s\<lparr>isConnected := False, health_isConnected := False\<rparr>)"

definition on_reconnecting :: "conn \<Rightarrow> conn" where
  "on_reconnecting s = s\<lparr>reconnectAttempts := reconnectAttempts s + 1\<rparr>"

text \<open>
  \<^verbatim>\<open>performHealthCheck\<close> is asynchronous: it tests the breaker, sends the ping and is
  suspended until the reply; other handlers run in between. \<open>performHealthCheck_begin\<close> is
  the part before the \<^verbatim>\<open>await\<close>, \<open>performHealthCheck_end\<close> the part after it.
\<close>

definition performHealthCheck_begin :: "conn \<Rightarrow> conn" where
  "performHealthCheck_begin s =
     (if circuitBreakerOpen s then s else s\<lparr>pingsInFlight := pingsInFlight s + 1\<rparr>)"

definition performHealthCheck_end :: "int \<Rightarrow> ping \<Rightarrow> conn \<Rightarrow> conn" where
  "performHealthCheck_end now p s =
     (if pingsInFlight s = 0 then s
      else
        (let s1 = s\<lparr>pingsInFlight := pingsInFlight s - 1\<rparr> in
         case p of
           Pong latency \<Rightarrow>
             s1\<lparr>health_latency := latency, health_isConnected := True,
                isConnected := True, circuitBreakerFailures := 0\<rparr>
         | PingFails msg \<Rightarrow> handleConnectionError now msg s1))"

text \<open>
  The run-time fires a pending reset callback once its instant has come. The callbacks
  all wait the same 30000 ms, so the oldest pending one is due first.
\<close>

definition cooldown_fire :: "int \<Rightarrow> conn \<Rightarrow> conn" where
  "cooldown_fire now s =
     (case resetTimers s of
        [] \<Rightarrow> s
      | due # rest \<Rightarrow>
          if due \<le> now then (cooldown_reset s)\<lparr>resetTimers := rest\<rparr> else s)"

definition resetCircuitBreaker :: "conn \<Rightarrow> conn" where
  "resetCircuitBreaker s = s\<lparr>circuitBreakerOpen := False, circuitBreakerFailures := 0\<rparr>"

definition getConnection :: "conn \<Rightarrow> error + client" where
  "getConnection s = (if circuitBreakerOpen s then Inl CircuitOpenError else Inr Client)"

definition isHealthy :: "conn \<Rightarrow> bool" where
  "isHealthy s \<longleftrightarrow> isConnected s \<and> \<not> circuitBreakerOpen s"

definition isCircuitBreakerOpen :: "conn \<Rightarrow> bool" where
  "isCircuitBreakerOpen s = circuitBreakerOpen s"

text \<open>
  What can happen to the service, each at an instant of the clock: the client's events,
  the health-check interval elapsing, the reply to a health-check ping, a reset callback
  coming due, a call of \<^verbatim>\<open>resetCircuitBreaker()\<close>, the call of \<^verbatim>\<open>initializeConnection\<close>
  by \<^verbatim>\<open>onModuleInit\<close>, a reconnect callback coming due, the reply to the ping of
  \<^verbatim>\<open>testConnection\<close>, and \<^verbatim>\<open>disconnect()\<close>.
\<close>

datatype event =
  Connect
  | Ready
  | Error string
  | Close
  | Reconnecting
  | HealthCheckTick
  | PingReply ping
  | CooldownElapsed
  | ManualReset
  | InitializeConnection preparation
  | ReconnectDue preparation
  | TestReply ping
  | Disconnect bool

fun step :: "conn \<Rightarrow> int \<times> event \<Rightarrow> conn" where
  "step s (now, Connect) = on_connect s"
| "step s (now, Ready) = on_ready s"
| "step s (now, Error msg) = on_error now msg s"
| "step s (now, Close) = on_close now s"
| "step s (now, Reconnecting) = on_reconnecting s"
| "step s (now, HealthCheckTick) = performHealthCheck_begin s"
| "step s (now, PingReply p) = performHealthCheck_end now p s"
| "step s (now, CooldownElapsed) = cooldown_fire now s"
| "step s (now, ManualReset) = resetCircuitBreaker s"
| "step s (now, InitializeConnection su) = initializeConnection_begin now su s"
| "step s (now, ReconnectDue su) = reconnect_fire now su s"
| "step s (now, TestReply p) = testConnection_end now p s"
| "step s (now, Disconnect hasClient) = disconnect hasClient s"

definition run :: "conn \<Rightarrow> (int \<times> event) list \<Rightarrow> conn" where
  "run s evs = foldl step s evs"

text \<open>A run of connection errors, each with its instant and message.\<close>

definition errors :: "(int \<times> string) list \<Rightarrow> conn \<Rightarrow> conn" where
  "errors es s = foldl (\<lambda>s (now, msg). handleConnectionError now msg s) s es"

text \<open>
  An event that marks the connection as up without touching the breaker: \<^verbatim>\<open>ready\<close>, the
  successful reply to a health-check ping, and the successful reply to the ping of
  \<^verbatim>\<open>testConnection\<close>.
\<close>

fun marks_connected :: "event \<Rightarrow> bool" where
  "marks_connected Ready = True"
| "marks_connected (PingReply (Pong latency)) = True"
| "marks_connected (TestReply (Pong latency)) = True"
| "marks_connected ev = False"

text \<open>
  \<open>marked_while_closed s evs\<close>: in the run of \<open>evs\<close> from \<open>s\<close>, every event that marks the
  connection as up arrives while the breaker is closed.
\<close>

fun marked_while_closed :: "conn \<Rightarrow> (int \<times> event) list \<Rightarrow> bool" where
  "marked_while_closed s [] = True"
| "marked_while_closed s (e # evs) =
     ((marks_connected (snd e) \<longrightarrow> \<not> circuitBreakerOpen s) \<and>
      marked_while_closed (step s e) evs)"

text \<open>The breaker is not open while the service reports that it is connected.\<close>

definition breaker_inv :: "conn \<Rightarrow> bool" where
  "breaker_inv s \<longleftrightarrow>
     (circuitBreakerOpen s \<longrightarrow> \<not> isConnected s \<and> \<not> health_isConnected s)"

section \<open>ConcurrencyControlService\<close>

text \<open>
  One entry of \<^verbatim>\<open>limits\<close>. The queue holds the suspended continuations, oldest first;
  each is known by the number of the \<^verbatim>\<open>acquireSlot\<close> call whose promise it resolves.
\<close>

record slot =
  maxConcurrent :: int
  currentRunning :: int
  queue :: "nat list"

type_synonym limits = "string \<rightharpoonup> slot"

text \<open>
  \<^verbatim>\<open>limits\<close> as the service is constructed: the own properties of the object literal.
\<close>

definition initial_limits :: limits where
  "initial_limits =
     [''task-status-update'' \<mapsto> \<lparr>maxConcurrent = 10, currentRunning = 0, queue = []\<rparr>,
      ''batch-status-update'' \<mapsto> \<lparr>maxConcurrent = 5, currentRunning = 0, queue = []\<rparr>,
      ''bulk-task-processing'' \<mapsto> \<lparr>maxConcurrent = 3, currentRunning = 0, queue = []\<rparr>,
      ''overdue-tasks-notification'' \<mapsto> \<lparr>maxConcurrent = 2, currentRunning = 0, queue = []\<rparr>,
      ''dead-letter'' \<mapsto> \<lparr>maxConcurrent = 1, currentRunning = 0, queue = []\<rparr>]"

text \<open>
  \<^verbatim>\<open>this.limits[jobType]\<close> indexes a plain object, so a name that the object inherits from
  \<^verbatim>\<open>Object.prototype\<close> is found too, as a function or an object without the three fields.
\<close>

definition inherited_names :: "string list" where
  "inherited_names =
     [''constructor'', ''__defineGetter__'', ''__defineSetter__'', ''hasOwnProperty'',
      ''__lookupGetter__'', ''__lookupSetter__'', ''isPrototypeOf'',
      ''propertyIsEnumerable'', ''toString'', ''valueOf'', ''__proto__'',
      ''toLocaleString'']"

text \<open>
  What a call does to the promises of the callers, in the order in which it happens:
  \<^item> \<open>Resolved j w\<close>: \<^verbatim>\<open>resolve(release)\<close> for caller \<open>w\<close> inside its own \<^verbatim>\<open>acquireSlot\<close>
    call (logged as "Acquired slot"), or the no-op release returned for an unknown type;
  \<^item> \<open>Queueing j w\<close>: the continuation of caller \<open>w\<close> is pushed on the queue and the
    caller stays suspended (logged as "Queueing job");
  \<^item> \<open>ResolvedQueued j w\<close>: the queued continuation of \<open>w\<close> runs and resolves its promise
    (logged as "Acquired queued slot");
  \<^item> \<open>Released j\<close>: a release function of job type \<open>j\<close> ran (logged as "Released slot");
  \<^item> \<open>Rejected j w\<close>: the promise of caller \<open>w\<close> is rejected with a TypeError.
\<close>

datatype trace =
  Resolved string nat
  | Queueing string nat
  | ResolvedQueued string nat
  | Released string
  | Rejected string nat

text \<open>
  \<^verbatim>\<open>acquireSlot\<close>. For an inherited name \<^verbatim>\<open>limit\<close> is truthy, the comparison of its two
  undefined fields is false, and reading \<^verbatim>\<open>limit.queue.length\<close> in the other branch throws
  inside the promise's executor, which rejects the promise; nothing is changed.
\<close>

definition acquireSlot :: "string \<Rightarrow> nat \<Rightarrow> limits \<Rightarrow> trace list \<times> limits" where
  "acquireSlot jobType w ls =
     (case ls jobType of
        None \<Rightarrow>
          if jobType \<in> set inherited_names then ([Rejected jobType w], ls)
          else ([Resolved jobType w], ls)
      | Some limit \<Rightarrow>
          if currentRunning limit < maxConcurrent limit
          then ([Resolved jobType w],
                ls(jobType \<mapsto> limit\<lparr>currentRunning := currentRunning limit + 1\<rparr>))
          else ([Queueing jobType w],
                ls(jobType \<mapsto> limit\<lparr>queue := queue limit @ [w]\<rparr>)))"

text \<open>
  \<^verbatim>\<open>processQueue\<close>, on the entry that the release function captured: if the queue is not
  empty and a slot is free, shift the oldest continuation and run it; the continuation
  increments \<^verbatim>\<open>currentRunning\<close> and resolves.
\<close>

definition processQueue :: "string \<Rightarrow> slot \<Rightarrow> trace list \<times> slot" where
  "processQueue jobType limit =
     (case queue limit of
        [] \<Rightarrow> ([], limit)
      | nextJob # rest \<Rightarrow>
          if currentRunning limit < maxConcurrent limit
          then ([ResolvedQueued jobType nextJob],
                limit\<lparr>queue := rest, currentRunning := currentRunning limit + 1\<rparr>)
          else ([], limit))"

text \<open>
  A call of a release function handed out for \<open>jobType\<close>: decrement, then
  \<^verbatim>\<open>processQueue\<close>. For a job type without an entry the function handed out, if any, is
  \<^verbatim>\<open>() => { }\<close>.
\<close>

definition release :: "string \<Rightarrow> limits \<Rightarrow> trace list \<times> limits" where
  "release jobType ls =
     (case ls jobType of
        None \<Rightarrow> ([], ls)
      | Some limit \<Rightarrow>
          (let (tr, limit') =
                 processQueue jobType (limit\<lparr>currentRunning := currentRunning limit - 1\<rparr>)
           in (Released jobType # tr, ls(jobType \<mapsto> limit'))))"

text \<open>
  The calls made on the service: \<open>AcquireSlot j w\<close> is caller \<open>w\<close> calling
  \<^verbatim>\<open>acquireSlot(j)\<close>, \<open>Release j\<close> is a call of a release function handed out for \<open>j\<close>.
  Nothing restricts who calls a release function or how often. \<open>run_ops\<close> runs a
  sequence of calls and collects what they do to the promises.
\<close>

datatype op = AcquireSlot string nat | Release string

fun exec_op :: "op \<Rightarrow> limits \<Rightarrow> trace list \<times> limits" where
  "exec_op (AcquireSlot jobType w) ls = acquireSlot jobType w ls"
| "exec_op (Release jobType) ls = release jobType ls"

fun run_ops :: "limits \<Rightarrow> op list \<Rightarrow> trace list \<times> limits" where
  "run_ops ls [] = ([], ls)"
| "run_ops ls (x # xs) =
     (let (tr, ls') = exec_op x ls; (tr', ls'') = run_ops ls' xs in (tr @ tr', ls''))"

text \<open>The callers of one job type that were queued, and those resolved from the queue.\<close>

fun queued_of :: "string \<Rightarrow> trace list \<Rightarrow> nat list" where
  "queued_of jobType [] = []"
| "queued_of jobType (Queueing j w # tr) =
     (if j = jobType then w # queued_of jobType tr else queued_of jobType tr)"
| "queued_of jobType (e # tr) = queued_of jobType tr"

fun dequeued_of :: "string \<Rightarrow> trace list \<Rightarrow> nat list" where
  "dequeued_of jobType [] = []"
| "dequeued_of jobType (ResolvedQueued j w # tr) =
     (if j = jobType then w # dequeued_of jobType tr else dequeued_of jobType tr)"
| "dequeued_of jobType (e # tr) = dequeued_of jobType tr"

text \<open>
  The invariant of an entry: the bound, and nobody waits in the queue while a slot is free.
\<close>

definition slot_inv :: "slot \<Rightarrow> bool" where
  "slot_inv l \<longleftrightarrow>
     currentRunning l \<le> maxConcurrent l \<and>
     (queue l \<noteq> [] \<longrightarrow> currentRunning l = maxConcurrent l)"

section \<open>ConsistentHashingStrategy and RedisPartitioningService\<close>

text \<open>
  The decimal digits of a number, as a template literal prints a non-negative integer
  (below \<open>10^21\<close>, where JavaScript changes to exponent notation).
\<close>

definition digit_char :: "nat \<Rightarrow> char" where
  "digit_char d = char_of (of_char CHR ''0'' + d)"

fun string_of_nat :: "nat \<Rightarrow> string" where
  "string_of_nat n =
     (if 10 \<le> n then string_of_nat (n div 10) @ [digit_char (n mod 10)]
      else [digit_char n])"

declare string_of_nat.simps [simp del]

text \<open>
  An entry of the ring. \<^verbatim>\<open>hash()\<close> is the first eight hexadecimal digits of an MD5 digest
  read as a number, so 32 bits without sign; the digest comes from the run-time's crypto
  library and is a parameter \<open>h\<close> of everything below.
\<close>

record ring_entry =
  hash :: "32 word"
  node :: string

definition virtualNodes :: nat where
  "virtualNodes = 160"

text \<open>
  The inner loop of \<^verbatim>\<open>buildRing\<close>: the entries pushed for one node, \<open>i\<close> from 0 up to
  \<open>virtualNodes\<close>.
\<close>

definition virtual_points :: "(string \<Rightarrow> 32 word) \<Rightarrow> string \<Rightarrow> ring_entry list" where
  "virtual_points h n =
     map (\<lambda>i. \<lparr>hash = h (n @ '':'' @ string_of_nat i), node = n\<rparr>) [0..<virtualNodes]"

text \<open>
  \<^verbatim>\<open>buildRing\<close>: the entries of all nodes in the order of the node list, then
  \<^verbatim>\<open>ring.sort((a, b) => a.hash - b.hash)\<close>, a stable sort by hash.
\<close>

definition buildRing :: "(string \<Rightarrow> 32 word) \<Rightarrow> string list \<Rightarrow> ring_entry list" where
  "buildRing h nodes = sort_key hash (concat (map (virtual_points h) nodes))"

text \<open>
  A \<^verbatim>\<open>ConsistentHashingStrategy\<close> object; its constructor stores the node list and builds
  the ring.
\<close>

record consistentHashing =
  ch_nodes :: "string list"
  ring :: "ring_entry list"

definition ConsistentHashingStrategy ::
  "(string \<Rightarrow> 32 word) \<Rightarrow> string list \<Rightarrow> consistentHashing" where
  "ConsistentHashingStrategy h nodes = \<lparr>ch_nodes = nodes, ring = buildRing h nodes\<rparr>"

text \<open>
  The \<^verbatim>\<open>for (const ringNode of this.ring)\<close> loop of both lookups: the node of the first
  entry whose hash is at least \<open>hk\<close>, if the loop returns.
\<close>

fun ring_search :: "32 word \<Rightarrow> ring_entry list \<Rightarrow> string option" where
  "ring_search hk [] = None"
| "ring_search hk (ringNode # rest) =
     (if hash ringNode \<ge> hk then Some (node ringNode) else ring_search hk rest)"

text \<open>
  The loop, then \<^verbatim>\<open>return this.ring[0].node\<close>: on an empty ring \<^verbatim>\<open>this.ring[0]\<close> is
  \<^verbatim>\<open>undefined\<close> and reading \<^verbatim>\<open>.node\<close> throws a TypeError.
\<close>

definition ring_lookup :: "32 word \<Rightarrow> ring_entry list \<Rightarrow> error + string" where
  "ring_lookup hk rg =
     (case ring_search hk rg of
        Some n \<Rightarrow> Inr n
      | None \<Rightarrow> (case rg of [] \<Rightarrow> Inl TypeError | first # _ \<Rightarrow> Inr (node first)))"

definition getNodeForKey ::
  "(string \<Rightarrow> 32 word) \<Rightarrow> consistentHashing \<Rightarrow> string \<Rightarrow> error + string" where
  "getNodeForKey h st key = ring_lookup (h key) (ring st)"

text \<open>
  \<^verbatim>\<open>getNodeForPartition(partition, nodes)\<close>; the strategy ignores \<^verbatim>\<open>nodes\<close>. The partition
  is a non-negative integer, as \<^verbatim>\<open>getPartition\<close> returns.
\<close>

definition getNodeForPartition ::
  "(string \<Rightarrow> 32 word) \<Rightarrow> consistentHashing \<Rightarrow> nat \<Rightarrow> error + string" where
  "getNodeForPartition h st partitionNo =
     ring_lookup (h (''partition:'' @ string_of_nat partitionNo)) (ring st)"

text \<open>
  \<^verbatim>\<open>RedisPartitioningService\<close>: its strategy (always a \<^verbatim>\<open>ConsistentHashingStrategy\<close>) and
  its node list.
\<close>

record partitioning =
  partitioningStrategy :: consistentHashing
  nodes :: "string list"

definition RedisPartitioningService :: "(string \<Rightarrow> 32 word) \<Rightarrow> partitioning" where
  "RedisPartitioningService h =
     (let ns = [''redis-node-1:6379'', ''redis-node-2:6379'', ''redis-node-3:6379'']
      in \<lparr>partitioningStrategy = ConsistentHashingStrategy h ns, nodes = ns\<rparr>)"

text \<open>
  \<^verbatim>\<open>getConnectionForKey(key)\<close>: the node is computed and logged, the connection returned is
  the one connection of the connection service.
\<close>

definition getConnectionForKey ::
  "(string \<Rightarrow> 32 word) \<Rightarrow> partitioning \<Rightarrow> conn \<Rightarrow> string \<Rightarrow> error + client" where
  "getConnectionForKey h svc c key =
     (if \<not> isHealthy c then Inl NotHealthyError
      else (case getNodeForKey h (partitioningStrategy svc) key of
              Inl e \<Rightarrow> Inl e
            | Inr n \<Rightarrow> getConnection c))"

text \<open>
  The \<^verbatim>\<open>Map\<close> built by \<^verbatim>\<open>distributeKeys\<close>, as the list of its entries in insertion order:
  a node seen for the first time gets a new entry at the end, then the key is pushed on
  the node's list.
\<close>

definition distribution_push ::
  "string \<Rightarrow> string \<Rightarrow> (string \<times> string list) list \<Rightarrow> (string \<times> string list) list" where
  "distribution_push n key dist =
     (if map_of dist n = None then dist @ [(n, [key])]
      else map (\<lambda>(m, ks). if m = n then (m, ks @ [key]) else (m, ks)) dist)"

fun distributeKeys_loop ::
  "(string \<Rightarrow> 32 word) \<Rightarrow> consistentHashing \<Rightarrow> string list \<Rightarrow>
     (string \<times> string list) list \<Rightarrow> error + (string \<times> string list) list" where
  "distributeKeys_loop h st [] dist = Inr dist"
| "distributeKeys_loop h st (key # keys) dist =
     (case getNodeForKey h st key of
        Inl e \<Rightarrow> Inl e
      | Inr n \<Rightarrow> distributeKeys_loop h st keys (distribution_push n key dist))"

definition distributeKeys ::
  "(string \<Rightarrow> 32 word) \<Rightarrow> partitioning \<Rightarrow> string list \<Rightarrow>
     error + (string \<times> string list) list" where
  "distributeKeys h svc keys = distributeKeys_loop h (partitioningStrategy svc) keys []"

text \<open>
  \<^verbatim>\<open>rebalanceKeys(keys, newNodes)\<close>: the strategy and the node list are replaced before the
  keys are distributed, so they stay replaced when the distribution throws.
\<close>

definition rebalanceKeys ::
  "(string \<Rightarrow> 32 word) \<Rightarrow> partitioning \<Rightarrow> string list \<Rightarrow> string list \<Rightarrow>
     (error + (string \<times> string list) list) \<times> partitioning" where
  "rebalanceKeys h svc keys newNodes =
     (let svc' = \<lparr>partitioningStrategy = ConsistentHashingStrategy h newNodes,
                  nodes = newNodes\<rparr>
      in (distributeKeys h svc' keys, svc'))"

section \<open>RateLimitService\<close>

text \<open>
  The numbers of the service are JavaScript numbers holding integers (counts, limits,
  milliseconds); they are modelled as \<open>int\<close>. \<open>windowMs\<close> is taken positive, as configured.
  Of \<^verbatim>\<open>RateLimitOptions\<close> the service reads \<^verbatim>\<open>limit\<close> and \<^verbatim>\<open>windowMs\<close> only.
\<close>

record RateLimitOptions =
  limit :: int
  windowMs :: int

text \<open>
  A value in a numeric position of a result: an integer, \<^verbatim>\<open>NaN\<close>, or \<^verbatim>\<open>undefined\<close>. The
  last two arise when the pipeline resolves with a rejected command in a slot, whose
  value is then \<^verbatim>\<open>undefined\<close>. Arithmetic on anything but two integers gives \<^verbatim>\<open>NaN\<close>, and
  every comparison with \<^verbatim>\<open>NaN\<close> or \<^verbatim>\<open>undefined\<close> is false.
\<close>

datatype js_number = Num int | NaN | Undefined

definition js_plus :: "js_number \<Rightarrow> js_number \<Rightarrow> js_number" where
  "js_plus a b = (case (a, b) of (Num x, Num y) \<Rightarrow> Num (x + y) | _ \<Rightarrow> NaN)"

definition js_minus :: "js_number \<Rightarrow> js_number \<Rightarrow> js_number" where
  "js_minus a b = (case (a, b) of (Num x, Num y) \<Rightarrow> Num (x - y) | _ \<Rightarrow> NaN)"

definition js_times :: "js_number \<Rightarrow> js_number \<Rightarrow> js_number" where
  "js_times a b = (case (a, b) of (Num x, Num y) \<Rightarrow> Num (x * y) | _ \<Rightarrow> NaN)"

definition js_le :: "js_number \<Rightarrow> js_number \<Rightarrow> bool" where
  "js_le a b = (case (a, b) of (Num x, Num y) \<Rightarrow> x \<le> y | _ \<Rightarrow> False)"

definition js_gt :: "js_number \<Rightarrow> js_number \<Rightarrow> bool" where
  "js_gt a b = (case (a, b) of (Num x, Num y) \<Rightarrow> y < x | _ \<Rightarrow> False)"

text \<open>
  \<^verbatim>\<open>Math.ceil(a / b)\<close> for integers \<open>a\<close> and positive \<open>b\<close>.
\<close>

definition ceil_div :: "int \<Rightarrow> int \<Rightarrow> int" where
  "ceil_div a b = - ((- a) div b)"

text \<open>\<^verbatim>\<open>Math.max(0, a)\<close> and \<^verbatim>\<open>Math.ceil(a / b)\<close> on such values.\<close>

definition js_max0 :: "js_number \<Rightarrow> js_number" where
  "js_max0 a = (case a of Num x \<Rightarrow> Num (max 0 x) | _ \<Rightarrow> NaN)"

definition js_ceil_div :: "js_number \<Rightarrow> int \<Rightarrow> js_number" where
  "js_ceil_div a b = (case a of Num x \<Rightarrow> Num (ceil_div x b) | _ \<Rightarrow> NaN)"

text \<open>
  \<^verbatim>\<open>RateLimitResult\<close>; \<open>res_limit\<close> is its field \<^verbatim>\<open>limit\<close>, and \<open>retryAfter = Undefined\<close>
  is \<^verbatim>\<open>retryAfter: undefined\<close> or the field left out.
\<close>

record RateLimitResult =
  allowed :: bool
  res_limit :: int
  current :: js_number
  remaining :: js_number
  resetTime :: js_number
  retryAfter :: js_number

text \<open>
  An entry of \<^verbatim>\<open>inMemoryStore\<close>: \<^verbatim>\<open>{ count, resetTime, limit }\<close>.
\<close>

record rate_window =
  count :: int
  win_resetTime :: int
  win_limit :: int

text \<open>
  What \<^verbatim>\<open>Date.now()\<close> returns at each place one call of \<^verbatim>\<open>checkRateLimit\<close> can read it:
  for the window index, for \<^verbatim>\<open>resetTime\<close> and for \<^verbatim>\<open>retryAfter\<close> in \<^verbatim>\<open>checkRedisRateLimit\<close>
  (the pipeline is awaited between the first and the second), and in
  \<^verbatim>\<open>checkMemoryRateLimit\<close>. \<open>t_store\<close> is the clock of the distributed store when it runs
  the pipeline of the call.
\<close>

record clock =
  t_window :: int
  t_reset :: int
  t_retry :: int
  t_memory :: int
  t_store :: int

text \<open>
  What the awaited \<^verbatim>\<open>pipeline.exec()\<close> of incr, expire, ttl does: throw, resolve to
  \<^verbatim>\<open>null\<close> or to an empty list, or resolve to results, of which the code reads
  \<^verbatim>\<open>results[0][1]\<close>, the count replied to \<^verbatim>\<open>incr\<close>, and \<^verbatim>\<open>results[2][1]\<close>, the seconds
  replied to \<^verbatim>\<open>ttl\<close>; each is \<open>Undefined\<close> when the store rejected that command, which
  the client reports in the slot without throwing. For one call the store is a
  parameter \<open>exec\<close>: from the window key and the expiry sent to the reply.
\<close>

datatype pipeline_reply =
  PipelineThrows
  | PipelineNoResults
  | PipelineResults js_number js_number

text \<open>
  A template literal prints a negative integer with a minus sign.
\<close>

definition string_of_int :: "int \<Rightarrow> string" where
  "string_of_int i =
     (if 0 \<le> i then string_of_nat (nat i) else CHR ''-'' # string_of_nat (nat (0 - i)))"

definition rateKeyPrefix :: string where
  "rateKeyPrefix = ''rate_limit:''"

text \<open>
  \<^verbatim>\<open>generateKey\<close>: \<^verbatim>\<open>identifier ? `${key}:${identifier}` : key\<close>, behind the prefix. The
  identifier is optional (\<open>None\<close> is \<^verbatim>\<open>undefined\<close>), and the empty string is falsy.
\<close>

definition generateKey :: "string \<Rightarrow> string option \<Rightarrow> string" where
  "generateKey key identifier =
     (let baseKey = (case identifier of
                       None \<Rightarrow> key
                     | Some i \<Rightarrow> if i = [] then key else key @ '':'' @ i)
      in rateKeyPrefix @ baseKey)"

text \<open>
  The key and the expiry that \<^verbatim>\<open>checkRedisRateLimit\<close> sends:
  \<^verbatim>\<open>`${key}:${Math.floor(Date.now() / options.windowMs)}`\<close> and
  \<^verbatim>\<open>Math.ceil(options.windowMs / 1000)\<close>.
\<close>

definition windowKey_of :: "clock \<Rightarrow> string \<Rightarrow> RateLimitOptions \<Rightarrow> string" where
  "windowKey_of clk key opts = key @ '':'' @ string_of_int (t_window clk div windowMs opts)"

definition pipeline_ttl :: "RateLimitOptions \<Rightarrow> int" where
  "pipeline_ttl opts = ceil_div (windowMs opts) 1000"

definition checkRedisRateLimit ::
  "(string \<Rightarrow> int \<Rightarrow> pipeline_reply) \<Rightarrow> clock \<Rightarrow> string \<Rightarrow> RateLimitOptions \<Rightarrow>
     error + RateLimitResult" where
  "checkRedisRateLimit exec clk key opts =
     (let windowKey = windowKey_of clk key opts;
          ttl = pipeline_ttl opts
      in case exec windowKey ttl of
           PipelineThrows \<Rightarrow> Inl BackendError
         | PipelineNoResults \<Rightarrow> Inl PipelineFailedError
         | PipelineResults currentCount ttlResult \<Rightarrow>
             (let rem = js_max0 (js_minus (Num (limit opts)) currentCount);
                  rt = js_plus (Num (t_reset clk)) (js_times ttlResult (Num 1000))
              in Inr \<lparr>allowed = js_le currentCount (Num (limit opts)),
                      res_limit = limit opts,
                      current = currentCount,
                      remaining = rem,
                      resetTime = rt,
                      retryAfter = (if js_gt currentCount (Num (limit opts))
                                    then js_ceil_div (js_minus rt (Num (t_retry clk))) 1000
                                    else Undefined)\<rparr>))"

definition checkDistributedRedisRateLimit ::
  "(string \<Rightarrow> 32 word) \<Rightarrow> partitioning \<Rightarrow> conn \<Rightarrow> (string \<Rightarrow> int \<Rightarrow> pipeline_reply) \<Rightarrow>
     clock \<Rightarrow> string \<Rightarrow> RateLimitOptions \<Rightarrow> error + RateLimitResult" where
  "checkDistributedRedisRateLimit h svc c exec clk key opts =
     (case getConnectionForKey h svc c key of
        Inl e \<Rightarrow> Inl e
      | Inr redisClient \<Rightarrow> checkRedisRateLimit exec clk key opts)"

text \<open>
  \<^verbatim>\<open>checkMemoryRateLimit\<close>: a new window when the key has no entry or \<^verbatim>\<open>now > resetTime\<close>;
  otherwise the entry's count is incremented in place.
\<close>

definition checkMemoryRateLimit ::
  "string \<Rightarrow> RateLimitOptions \<Rightarrow> int \<Rightarrow> (string \<rightharpoonup> rate_window) \<Rightarrow>
     RateLimitResult \<times> (string \<rightharpoonup> rate_window)" where
  "checkMemoryRateLimit key opts now store =
     (let newWindow = \<lparr>count = 1, win_resetTime = now + windowMs opts,
                        win_limit = limit opts\<rparr>;
          fresh = (\<lparr>allowed = True, res_limit = limit opts, current = Num 1,
                     remaining = Num (limit opts - 1),
                     resetTime = Num (win_resetTime newWindow),
                     retryAfter = Undefined\<rparr>,
                   store(key \<mapsto> newWindow))
      in case store key of
           None \<Rightarrow> fresh
         | Some cur \<Rightarrow>
             if now > win_resetTime cur then fresh
             else
               (let cur' = cur\<lparr>count := count cur + 1\<rparr>;
                    ok = (count cur' \<le> limit opts);
                    rem = max 0 (limit opts - count cur')
                in (\<lparr>allowed = ok, res_limit = limit opts, current = Num (count cur'),
                      remaining = Num rem, resetTime = Num (win_resetTime cur'),
                      retryAfter = (if \<not> ok
                                    then Num (ceil_div (win_resetTime cur' - now) 1000)
                                    else Undefined)\<rparr>,
                    store(key \<mapsto> cur'))))"

text \<open>
  \<^verbatim>\<open>checkRateLimit\<close>. The \<^verbatim>\<open>catch\<close> takes every exception of the distributed check and
  returns what \<^verbatim>\<open>checkMemoryRateLimit\<close> returns, which does not throw: every path ends in
  a result.
\<close>

definition checkRateLimit ::
  "(string \<Rightarrow> 32 word) \<Rightarrow> partitioning \<Rightarrow> conn \<Rightarrow> (string \<Rightarrow> int \<Rightarrow> pipeline_reply) \<Rightarrow>
     clock \<Rightarrow> string \<Rightarrow> RateLimitOptions \<Rightarrow> string option \<Rightarrow> (string \<rightharpoonup> rate_window) \<Rightarrow>
     RateLimitResult \<times> (string \<rightharpoonup> rate_window)" where
  "checkRateLimit h svc c exec clk key opts identifier store =
     (let fullKey = generateKey key identifier in
      if isHealthy c \<and> \<not> isCircuitBreakerOpen c
      then (case checkDistributedRedisRateLimit h svc c exec clk fullKey opts of
              Inr result \<Rightarrow> (result, store)
            | Inl e \<Rightarrow> checkMemoryRateLimit fullKey opts (t_memory clk) store)
      else checkMemoryRateLimit fullKey opts (t_memory clk) store)"

text \<open>
  Successive calls for one key, options and identifier, each with its clock readings;
  the in-memory store is threaded through, the results are listed in call order. The
  distributed store answers every call by the same \<open>exec\<close>.
\<close>

fun checkRateLimit_calls ::
  "(string \<Rightarrow> 32 word) \<Rightarrow> partitioning \<Rightarrow> conn \<Rightarrow> (string \<Rightarrow> int \<Rightarrow> pipeline_reply) \<Rightarrow>
     string \<Rightarrow> RateLimitOptions \<Rightarrow> string option \<Rightarrow> clock list \<Rightarrow>
     (string \<rightharpoonup> rate_window) \<Rightarrow> RateLimitResult list" where
  "checkRateLimit_calls h svc c exec key opts identifier [] store = []"
| "checkRateLimit_calls h svc c exec key opts identifier (clk # clks) store =
     (let (result, store') = checkRateLimit h svc c exec clk key opts identifier store
      in result # checkRateLimit_calls h svc c exec key opts identifier clks store')"






text \<open>
  A store that throws on every pipeline, a stand-in for the digest, and the clock of a
  call during which no millisecond passes: the environment of the examples.
\<close>

definition backend_throws :: "string \<Rightarrow> int \<Rightarrow> pipeline_reply" where
  "backend_throws windowKey ttl = PipelineThrows"

definition length_hash :: "string \<Rightarrow> 32 word" where
  "length_hash k = word_of_nat (length k)"

definition at_instant :: "int \<Rightarrow> clock" where
  "at_instant t = \<lparr>t_window = t, t_reset = t, t_retry = t, t_memory = t, t_store = t\<rparr>"

section \<open>CacheService (cache.service.ts)\<close>

text \<open>
  A cache key as it arrives at run time: the parameter is typed \<^verbatim>\<open>string\<close>, and
  \<^verbatim>\<open>getPrefixedKey\<close> tests \<^verbatim>\<open>typeof key !== 'string'\<close> for callers that pass something else
  (\<open>JNotString\<close>: \<^verbatim>\<open>undefined\<close>, \<^verbatim>\<open>null\<close>, a number, an object).
\<close>

datatype js_key = JString string | JNotString

definition cacheKeyPrefix :: string where
  "cacheKeyPrefix = ''taskflow:cache:''"

text \<open>
  The characters that \<^verbatim>\<open>/[^a-zA-Z0-9:_-]/g\<close> leaves in place. A \<open>char\<close> is a byte, so a
  character outside ASCII, one replaced unit in JavaScript, is several replaced bytes
  here; nothing below depends on the sanitised text of such a key.
\<close>

definition safe_char :: "char \<Rightarrow> bool" where
  "safe_char ch \<longleftrightarrow>
     (let n = (of_char ch :: nat)
      in (97 \<le> n \<and> n \<le> 122) \<or> (65 \<le> n \<and> n \<le> 90) \<or> (48 \<le> n \<and> n \<le> 57) \<or>
         ch = CHR '':'' \<or> ch = CHR ''_'' \<or> ch = CHR ''-'')"

text \<open>
  \<^verbatim>\<open>getPrefixedKey\<close>: \<^verbatim>\<open>!key\<close> holds for the empty string among strings.
\<close>

definition getPrefixedKey :: "js_key \<Rightarrow> error + string" where
  "getPrefixedKey key =
     (case key of
        JNotString \<Rightarrow> Inl InvalidCacheKeyError
      | JString k \<Rightarrow>
          if k = [] then Inl InvalidCacheKeyError
          else Inr (cacheKeyPrefix @ map (\<lambda>ch. if safe_char ch then ch else CHR ''_'') k))"

text \<open>
  An entry of the local map, and the fields of the service that the operations read and
  write. \<open>'v\<close> is the type of the cached values.
\<close>

record 'v CacheItem =
  item_value :: 'v
  expiresAt :: int

record 'v cache_service =
  isRedisAvailable :: bool
  cache :: "string \<rightharpoonup> 'v CacheItem"

text \<open>
  \<^verbatim>\<open>onModuleInit\<close>: the flag is set from \<^verbatim>\<open>isHealthy()\<close> once; \<^verbatim>\<open>initializePubSub\<close> catches
  its own exceptions. No other method assigns \<^verbatim>\<open>isRedisAvailable\<close>.
\<close>

definition onModuleInit :: "conn \<Rightarrow> 'v cache_service \<Rightarrow> 'v cache_service" where
  "onModuleInit c s = (if isHealthy c then s\<lparr>isRedisAvailable := True\<rparr>
                       else s\<lparr>isRedisAvailable := False\<rparr>)"

text \<open>
  The commands the cache sends to the injected client: \<^verbatim>\<open>get\<close>, \<^verbatim>\<open>setex\<close> (which the
  store rejects for a time to live that is not positive), \<^verbatim>\<open>del\<close> of one key, \<^verbatim>\<open>mget\<close>
  (rejected without a key), and a pipeline of \<^verbatim>\<open>setex\<close> commands, whose \<^verbatim>\<open>exec()\<close> throws
  only when the store is down: a rejected command is reported in the results.
\<close>

definition redis_cmd_get :: "redis \<Rightarrow> int \<Rightarrow> string \<Rightarrow> error + string option" where
  "redis_cmd_get r now k = (if \<not> up r then Inl BackendError else Inr (redis_get r now k))"

definition redis_setex :: "redis \<Rightarrow> int \<Rightarrow> string \<Rightarrow> int \<Rightarrow> string \<Rightarrow> error + redis" where
  "redis_setex r now k ttlSeconds v =
     (if \<not> up r \<or> ttlSeconds \<le> 0 then Inl BackendError
      else Inr (r\<lparr>kv := (kv r)(k \<mapsto> (v, now + ttlSeconds * 1000))\<rparr>))"




text \<open>
  The local map: \<^verbatim>\<open>setMemory\<close>, \<^verbatim>\<open>getMemory\<close> (which deletes an expired entry it meets)
  and \<^verbatim>\<open>deleteMemory\<close>.
\<close>

definition setMemory :: "string \<Rightarrow> 'v \<Rightarrow> int \<Rightarrow> 'v cache_service \<Rightarrow> 'v cache_service" where
  "setMemory key v exp s = s\<lparr>cache := (cache s)(key \<mapsto> \<lparr>item_value = v, expiresAt = exp\<rparr>)\<rparr>"

definition getMemory :: "int \<Rightarrow> string \<Rightarrow> 'v cache_service \<Rightarrow> 'v option \<times> 'v cache_service" where
  "getMemory now key s =
     (case cache s key of
        None \<Rightarrow> (None, s)
      | Some item \<Rightarrow>
          if expiresAt item < now then (None, s\<lparr>cache := (cache s)(key := None)\<rparr>)
          else (Some (item_value item), s))"


text \<open>
  The distributed methods. \<open>parse\<close> is \<^verbatim>\<open>JSON.parse\<close> with \<open>None\<close> for \<^verbatim>\<open>null\<close> and for
  a SyntaxError, which \<^verbatim>\<open>getRedis\<close> and \<^verbatim>\<open>mgetRedis\<close> catch and turn into \<^verbatim>\<open>null\<close>;
  \<open>stringify\<close> is \<^verbatim>\<open>JSON.stringify\<close>. \<^verbatim>\<open>msetRedis\<close> sends the keys as given, without
  \<^verbatim>\<open>getPrefixedKey\<close>.
\<close>

definition getRedis ::
  "(string \<Rightarrow> 'v option) \<Rightarrow> redis \<Rightarrow> int \<Rightarrow> string \<Rightarrow> error + 'v option" where
  "getRedis parse r now key =
     (case redis_cmd_get r now key of
        Inl e \<Rightarrow> Inl e
      | Inr None \<Rightarrow> Inr None
      | Inr (Some text) \<Rightarrow> Inr (parse text))"

definition setRedis ::
  "('v \<Rightarrow> string) \<Rightarrow> redis \<Rightarrow> int \<Rightarrow> string \<Rightarrow> 'v \<Rightarrow> int \<Rightarrow> error + redis" where
  "setRedis stringify r now key v ttlSeconds = redis_setex r now key ttlSeconds (stringify v)"

definition setDistributedRedis ::
  "('v \<Rightarrow> string) \<Rightarrow> (string \<Rightarrow> 32 word) \<Rightarrow> partitioning \<Rightarrow> conn \<Rightarrow> redis \<Rightarrow> int \<Rightarrow>
     string \<Rightarrow> 'v \<Rightarrow> int \<Rightarrow> error + redis" where
  "setDistributedRedis stringify h svc c r now key v ttlSeconds =
     (case getConnectionForKey h svc c key of
        Inl e \<Rightarrow> Inl e
      | Inr redisClient \<Rightarrow> setRedis stringify r now key v ttlSeconds)"




text \<open>
  \<^verbatim>\<open>get\<close>: \<open>get_try\<close> is the \<^verbatim>\<open>try\<close> block, \<open>get\<close> adds the \<^verbatim>\<open>catch\<close>, which returns
  \<^verbatim>\<open>null\<close>. The result type keeps the place of an exception reaching the caller.
\<close>

definition get_try ::
  "(string \<Rightarrow> 'v option) \<Rightarrow> redis \<Rightarrow> int \<Rightarrow> js_key \<Rightarrow> 'v cache_service \<Rightarrow>
     error + ('v option \<times> 'v cache_service)" where
  "get_try parse r now key s =
     (case getPrefixedKey key of
        Inl e \<Rightarrow> Inl e
      | Inr prefixedKey \<Rightarrow>
          if isRedisAvailable s
          then (case getRedis parse r now prefixedKey of
                  Inl e \<Rightarrow> Inl e
                | Inr v \<Rightarrow> Inr (v, s))
          else Inr (getMemory now prefixedKey s))"

definition get ::
  "(string \<Rightarrow> 'v option) \<Rightarrow> redis \<Rightarrow> int \<Rightarrow> js_key \<Rightarrow> 'v cache_service \<Rightarrow>
     (error + 'v option) \<times> 'v cache_service" where
  "get parse r now key s =
     (case get_try parse r now key s of
        Inr (v, s') \<Rightarrow> (Inr v, s')
      | Inl e \<Rightarrow> (Inr None, s))"

text \<open>
  \<^verbatim>\<open>set\<close> (here \<open>set_cache\<close>). The \<^verbatim>\<open>catch\<close> block calls \<^verbatim>\<open>getPrefixedKey\<close> again when
  \<^verbatim>\<open>isRedisAvailable\<close>, outside any \<^verbatim>\<open>try\<close>; \<open>now'\<close> is the clock read there.
\<close>

definition set_try ::
  "('v \<Rightarrow> string) \<Rightarrow> (string \<Rightarrow> 32 word) \<Rightarrow> partitioning \<Rightarrow> conn \<Rightarrow> redis \<Rightarrow> int \<Rightarrow>
     js_key \<Rightarrow> 'v \<Rightarrow> int \<Rightarrow> 'v cache_service \<Rightarrow> error + ('v cache_service \<times> redis)" where
  "set_try stringify h svc c r now key v ttlSeconds s =
     (case getPrefixedKey key of
        Inl e \<Rightarrow> Inl e
      | Inr prefixedKey \<Rightarrow>
          (let exp = now + ttlSeconds * 1000 in
           if isRedisAvailable s \<and> \<not> isCircuitBreakerOpen c
           then (case setDistributedRedis stringify h svc c r now prefixedKey v ttlSeconds of
                   Inl e \<Rightarrow> Inl e
                 | Inr r' \<Rightarrow> Inr (s, r'))
           else Inr (setMemory prefixedKey v exp s, r)))"

definition set_cache ::
  "('v \<Rightarrow> string) \<Rightarrow> (string \<Rightarrow> 32 word) \<Rightarrow> partitioning \<Rightarrow> conn \<Rightarrow> redis \<Rightarrow> int \<Rightarrow> int \<Rightarrow>
     js_key \<Rightarrow> 'v \<Rightarrow> int \<Rightarrow> 'v cache_service \<Rightarrow> (error + unit) \<times> 'v cache_service \<times> redis" where
  "set_cache stringify h svc c r now now' key v ttlSeconds s =
     (case set_try stringify h svc c r now key v ttlSeconds s of
        Inr (s', r') \<Rightarrow> (Inr (), s', r')
      | Inl e \<Rightarrow>
          if isRedisAvailable s
          then (case getPrefixedKey key of
                  Inl e' \<Rightarrow> (Inl e', s, r)
                | Inr prefixedKey \<Rightarrow>
                    (Inr (), setMemory prefixedKey v (now' + ttlSeconds * 1000) s, r))
          else (Inr (), s, r))"









text \<open>
  For the examples: values that are their own JSON text, and the service before
  \<^verbatim>\<open>onModuleInit\<close>.
\<close>

definition json_text_parse :: "string \<Rightarrow> string option" where
  "json_text_parse text = Some text"


definition unconfigured_cache :: "string cache_service" where
  "unconfigured_cache = \<lparr>isRedisAvailable = False, cache = Map.empty\<rparr>"

section \<open>Properties of the lock\<close>

text \<open>
  C4. While the store answers, \<open>releaseLock resource token\<close> returns true exactly when the
  value held at the lock key is \<open>token\<close>, and then the key is deleted and nothing else
  changes; when the held value differs or the key is absent it returns false and the store
  is unchanged. While the store throws, \<open>acquireLock\<close> returns null and \<open>releaseLock\<close>
  returns false, the store untouched; neither ever raises.
\<close>

theorem releaseLock_compare_and_delete:
  "(up r \<longrightarrow>
      (fst (releaseLock r now resource token)
         \<longleftrightarrow> redis_get r now (lockPrefix @ resource) = Some token)) \<and>
   (fst (releaseLock r now resource token) \<longrightarrow>
      snd (releaseLock r now resource token)
        = r\<lparr>kv := (kv r)(lockPrefix @ resource := None)\<rparr>) \<and>
   (\<not> fst (releaseLock r now resource token) \<longrightarrow>
      snd (releaseLock r now resource token) = r) \<and>
   (\<not> up r \<longrightarrow>
      acquireLock r now token' resource ttlMs = (None, r) \<and>
      releaseLock r now resource token = (False, r))"
  by (simp add: releaseLock_def acquireLock_def redis_eval_release_def redis_set_px_nx_def
        Let_def)

theorem releaseLock_compare_and_delete_witness:
  "releaseLock \<lparr>up = True, kv = [lockPrefix @ ''R'' \<mapsto> (''t1'', 10000)]\<rparr> 5 ''R'' ''t1''
     = (True, \<lparr>up = True, kv = Map.empty\<rparr>) \<and>
   releaseLock \<lparr>up = True, kv = [lockPrefix @ ''R'' \<mapsto> (''t1'', 10000)]\<rparr> 5 ''R'' ''t2''
     = (False, \<lparr>up = True, kv = [lockPrefix @ ''R'' \<mapsto> (''t1'', 10000)]\<rparr>) \<and>
   releaseLock \<lparr>up = False, kv = [lockPrefix @ ''R'' \<mapsto> (''t1'', 10000)]\<rparr> 5 ''R'' ''t1''
     = (False, \<lparr>up = False, kv = [lockPrefix @ ''R'' \<mapsto> (''t1'', 10000)]\<rparr>) \<and>
   acquireLock \<lparr>up = False, kv = Map.empty\<rparr> 5 ''t1'' ''R'' 10000
     = (None, \<lparr>up = False, kv = Map.empty\<rparr>)"
proof -
  let ?r = "\<lparr>up = True, kv = [lockPrefix @ ''R'' \<mapsto> (''t1'', 10000::int)]\<rparr>"
  let ?d = "\<lparr>up = False, kv = [lockPrefix @ ''R'' \<mapsto> (''t1'', 10000::int)]\<rparr>"
  let ?e = "\<lparr>up = False, kv = (Map.empty :: string \<rightharpoonup> (string \<times> int))\<rparr>"
  have g: "redis_get ?r 5 (lockPrefix @ ''R'') = Some ''t1''"
    by (simp add: redis_get_def)
  have a: "releaseLock ?r 5 ''R'' ''t1'' = (True, \<lparr>up = True, kv = Map.empty\<rparr>)"
    using releaseLock_compare_and_delete [of ?r 5 "''R''" "''t1''" "''t1''" 10000] g
    by (simp add: prod_eq_iff)
  have b: "releaseLock ?r 5 ''R'' ''t2'' = (False, ?r)"
    using releaseLock_compare_and_delete [of ?r 5 "''R''" "''t2''" "''t1''" 10000] g
    by (simp add: prod_eq_iff)
  have c: "releaseLock ?d 5 ''R'' ''t1'' = (False, ?d)"
    using releaseLock_compare_and_delete [of ?d 5 "''R''" "''t1''" "''t1''" 10000]
    by simp
  have d: "acquireLock ?e 5 ''t1'' ''R'' 10000 = (None, ?e)"
    using releaseLock_compare_and_delete [of ?e 5 "''R''" "''t1''" "''t1''" 10000]
    by simp
  show ?thesis using a b c d by simp
qed

section \<open>Properties of the connection manager\<close>

lemma handleConnectionError_failures:
  "circuitBreakerFailures (handleConnectionError now msg s) = circuitBreakerFailures s + 1"
  by (simp add: handleConnectionError_def Let_def)

lemma handleConnectionError_open:
  "circuitBreakerOpen (handleConnectionError now msg s) \<longleftrightarrow>
     circuitBreakerOpen s \<or> circuitBreakerThreshold \<le> circuitBreakerFailures s + 1"
  by (simp add: handleConnectionError_def Let_def)

lemma errors_snoc:
  "errors (es @ [(now, msg)]) s = handleConnectionError now msg (errors es s)"
  by (simp add: errors_def)

lemma errors_failures:
  "circuitBreakerFailures (errors es s) = circuitBreakerFailures s + length es"
proof (induction es rule: rev_induct)
  case Nil
  then show ?case by (simp add: errors_def)
next
  case (snoc e es)
  obtain now msg where e: "e = (now, msg)" by (cases e)
  show ?case using snoc
    by (simp add: e errors_snoc handleConnectionError_failures)
qed

lemma errors_open:
  "circuitBreakerOpen (errors es s) \<longleftrightarrow>
     circuitBreakerOpen s \<or>
     (es \<noteq> [] \<and> circuitBreakerThreshold \<le> circuitBreakerFailures s + length es)"
proof (induction es rule: rev_induct)
  case Nil
  then show ?case by (simp add: errors_def)
next
  case (snoc e es)
  obtain now msg where e: "e = (now, msg)" by (cases e)
  show ?case using snoc
    by (auto simp: e errors_snoc handleConnectionError_open errors_failures)
qed

lemma errors_timers_below:
  "circuitBreakerFailures s + length es < circuitBreakerThreshold \<Longrightarrow>
     resetTimers (errors es s) = resetTimers s"
proof (induction es rule: rev_induct)
  case Nil
  then show ?case by (simp add: errors_def)
next
  case (snoc e es)
  obtain now msg where e: "e = (now, msg)" by (cases e)
  show ?case using snoc
    by (simp add: e errors_snoc handleConnectionError_def Let_def errors_failures)
qed

text \<open>
  C2. From a closed breaker with no recorded failure, after any run \<open>es\<close> of connection
  errors the failure counter is the number of errors; with fewer than five errors the
  breaker is still closed and \<open>getConnection\<close> returns the handle; from the fifth error
  on the breaker is open and \<open>getConnection\<close> signals the circuit-open error, however many
  more errors follow. The fifth error, at instant \<open>now\<close>, schedules the reset for
  \<open>now + 30000\<close>. A pending reset does nothing before its instant; from its instant on it
  closes the breaker and zeroes the counter and changes no other field, so it does not
  depend on whether the connection is up.
\<close>

theorem circuit_breaker_opens_at_threshold:
  assumes closed: "\<not> circuitBreakerOpen s" and zero: "circuitBreakerFailures s = 0"
  shows
   "circuitBreakerFailures (errors es s) = length es \<and>
    (length es < 5 \<longrightarrow>
       \<not> circuitBreakerOpen (errors es s) \<and> getConnection (errors es s) = Inr Client) \<and>
    (5 \<le> length es \<longrightarrow>
       isCircuitBreakerOpen (errors es s) \<and>
       getConnection (errors es s) = Inl CircuitOpenError) \<and>
    (length es = 4 \<longrightarrow>
       resetTimers (handleConnectionError now msg (errors es s))
         = resetTimers s @ [now + 30000]) \<and>
    (\<forall>u due rest. resetTimers u = due # rest \<longrightarrow>
       (t < due \<longrightarrow> cooldown_fire t u = u) \<and>
       (due \<le> t \<longrightarrow>
          cooldown_fire t u
            = u\<lparr>circuitBreakerOpen := False, circuitBreakerFailures := 0,
                resetTimers := rest\<rparr>))"
proof -
  have a: "circuitBreakerFailures (errors es s) = length es"
    by (simp add: errors_failures zero)
  have o: "circuitBreakerOpen (errors es s) \<longleftrightarrow> 5 \<le> length es"
    using closed zero by (auto simp add: errors_open circuitBreakerThreshold_def)
  have b: "length es < 5 \<longrightarrow>
       \<not> circuitBreakerOpen (errors es s) \<and> getConnection (errors es s) = Inr Client"
    by (simp add: o getConnection_def)
  have c: "5 \<le> length es \<longrightarrow>
       isCircuitBreakerOpen (errors es s) \<and>
       getConnection (errors es s) = Inl CircuitOpenError"
    by (simp add: o getConnection_def isCircuitBreakerOpen_def)
  have d: "length es = 4 \<longrightarrow>
       resetTimers (handleConnectionError now msg (errors es s))
         = resetTimers s @ [now + 30000]"
    using errors_timers_below [of s es]
    by (simp add: handleConnectionError_def Let_def a zero circuitBreakerThreshold_def
          circuitBreakerTimeout_def)
  have e: "\<forall>u due rest. resetTimers u = due # rest \<longrightarrow>
       (t < due \<longrightarrow> cooldown_fire t u = u) \<and>
       (due \<le> t \<longrightarrow>
          cooldown_fire t u
            = u\<lparr>circuitBreakerOpen := False, circuitBreakerFailures := 0,
                resetTimers := rest\<rparr>)"
    by (simp add: cooldown_fire_def cooldown_reset_def)
  show ?thesis using a b c d e by blast
qed

text \<open>
  The theorem at the service as constructed: four errors at the instants 10, 20, 30, 40
  leave the breaker closed; the fifth, at instant 50, opens it and schedules the reset
  for 30050; the reset does not fire at 30049 and fires at 30050.
\<close>

theorem circuit_breaker_opens_at_threshold_witness:
  "\<not> circuitBreakerOpen initial_conn \<and> circuitBreakerFailures initial_conn = 0 \<and>
   getConnection
     (errors [(10, ''e''), (20, ''e''), (30, ''e''), (40, ''e'')] initial_conn) = Inr Client \<and>
   getConnection
     (errors [(10, ''e''), (20, ''e''), (30, ''e''), (40, ''e''), (50, ''e'')] initial_conn)
     = Inl CircuitOpenError \<and>
   resetTimers
     (handleConnectionError 50 ''e''
        (errors [(10, ''e''), (20, ''e''), (30, ''e''), (40, ''e'')] initial_conn))
     = [30050] \<and>
   cooldown_fire 30049
     (errors [(10, ''e''), (20, ''e''), (30, ''e''), (40, ''e''), (50, ''e'')] initial_conn)
     = errors [(10, ''e''), (20, ''e''), (30, ''e''), (40, ''e''), (50, ''e'')] initial_conn \<and>
   \<not> circuitBreakerOpen
       (cooldown_fire 30050
          (errors [(10, ''e''), (20, ''e''), (30, ''e''), (40, ''e''), (50, ''e'')]
             initial_conn))"
proof -
  let ?e4 = "[(10, ''e''), (20, ''e''), (30, ''e''), (40::int, ''e'')]"
  let ?e5 = "[(10, ''e''), (20, ''e''), (30, ''e''), (40, ''e''), (50::int, ''e'')]"
  have h1: "\<not> circuitBreakerOpen initial_conn" and h2: "circuitBreakerFailures initial_conn = 0"
    by (simp_all add: initial_conn_def)
  have t0: "resetTimers initial_conn = []"
    by (simp add: initial_conn_def)
  have e5: "errors ?e5 initial_conn = handleConnectionError 50 ''e'' (errors ?e4 initial_conn)"
    by (simp add: errors_def)
  have w4: "getConnection (errors ?e4 initial_conn) = Inr Client"
    and tm: "resetTimers (handleConnectionError 50 ''e'' (errors ?e4 initial_conn)) = [30050]"
    using circuit_breaker_opens_at_threshold [OF h1 h2, of ?e4 50 "''e''" 0] t0
    by simp_all
  have w5: "getConnection (errors ?e5 initial_conn) = Inl CircuitOpenError"
    using circuit_breaker_opens_at_threshold [OF h1 h2, of ?e5 50 "''e''" 0]
    by simp
  obtain rest where r: "resetTimers (errors ?e5 initial_conn) = 30050 # rest"
    using tm e5 by simp
  have f1: "cooldown_fire 30049 (errors ?e5 initial_conn) = errors ?e5 initial_conn"
    using circuit_breaker_opens_at_threshold [OF h1 h2, of ?e5 50 "''e''" 30049] r
    by simp
  have f2: "\<not> circuitBreakerOpen (cooldown_fire 30050 (errors ?e5 initial_conn))"
    using circuit_breaker_opens_at_threshold [OF h1 h2, of ?e5 50 "''e''" 30050] r
    by simp
  show ?thesis using h1 h2 w4 w5 tm f1 f2 by simp
qed

lemma step_breaker_inv:
  assumes "breaker_inv s" and "marks_connected (snd e) \<longrightarrow> \<not> circuitBreakerOpen s"
  shows "breaker_inv (step s e)"
proof (cases e)
  case (Pair now ev)
  show ?thesis
  proof (cases ev)
    case (PingReply p)
    with Pair assms show ?thesis
      by (cases p)
         (auto simp: breaker_inv_def performHealthCheck_end_def handleConnectionError_def
            Let_def)
  next
    case CooldownElapsed
    with Pair assms show ?thesis
      by (auto simp: breaker_inv_def cooldown_fire_def cooldown_reset_def split: list.splits)
  next
    case (InitializeConnection su)
    with Pair assms show ?thesis
      by (cases su)
         (auto simp: breaker_inv_def initializeConnection_begin_def handleConnectionError_def
            Let_def)
  next
    case (ReconnectDue su)
    with Pair assms show ?thesis
      by (cases su; cases "remove_due now (reconnectTimers s)")
         (auto simp: breaker_inv_def reconnect_fire_def initializeConnection_begin_def
            handleConnectionError_def Let_def)
  next
    case (TestReply p)
    with Pair assms show ?thesis
      by (cases p)
         (auto simp: breaker_inv_def testConnection_end_def handleConnectionError_def Let_def)
  next
    case (Disconnect hasClient)
    with Pair assms show ?thesis
      by (auto simp: breaker_inv_def disconnect_def)
  qed (use Pair assms in \<open>auto simp: breaker_inv_def on_connect_def on_ready_def on_error_def
         on_close_def on_reconnecting_def handleConnectionError_def Let_def
         attemptReconnect_def performHealthCheck_begin_def resetCircuitBreaker_def\<close>)
qed

lemma run_breaker_inv:
  "breaker_inv s \<Longrightarrow> marked_while_closed s evs \<Longrightarrow> breaker_inv (run s evs)"
  by (induction evs arbitrary: s) (simp_all add: run_def step_breaker_inv)

lemma testConnection_marks_connected_while_open:
  "circuitBreakerOpen s \<Longrightarrow> 0 < testsInFlight s \<Longrightarrow>
     circuitBreakerOpen (testConnection_end now (Pong latency) s) \<and>
     isConnected (testConnection_end now (Pong latency) s) \<and>
     health_isConnected (testConnection_end now (Pong latency) s)"
  by (simp add: testConnection_end_def Let_def)

text \<open>
  C8, as the claim states it, fails: five errors open the breaker, and a \<^verbatim>\<open>ready\<close> event
  then sets both connected flags without closing it.
\<close>

theorem breaker_open_while_connected_counterexample:
  "\<not> (circuitBreakerOpen
         (run initial_conn
            [(0, Error ''e''), (1, Error ''e''), (2, Error ''e''), (3, Error ''e''),
             (4, Error ''e''), (5, Ready)])
       \<longrightarrow> \<not> health_isConnected
             (run initial_conn
                [(0, Error ''e''), (1, Error ''e''), (2, Error ''e''), (3, Error ''e''),
                 (4, Error ''e''), (5, Ready)]))"
  by (simp add: run_def initial_conn_def on_error_def on_ready_def handleConnectionError_def
        Let_def circuitBreakerThreshold_def)

text \<open>
  C8, amended. In every state reached from the service as constructed by a sequence of
  connect, ready, error, close and reconnecting events, health-check ticks and their
  ping replies, due reset callbacks, manual resets, connection initialisations (at
  start-up and from due reconnect callbacks) with the replies to their connection
  tests, and disconnects, in which every \<^verbatim>\<open>ready\<close> event, every successful health-check
  ping reply and every successful connection test arrives while the breaker is closed,
  an open breaker implies that \<open>isConnected\<close> and the reported
  \<open>connectionHealth.isConnected\<close> are both false.
\<close>

theorem breaker_open_implies_disconnected:
  "marked_while_closed initial_conn evs \<Longrightarrow>
     (circuitBreakerOpen (run initial_conn evs) \<longrightarrow>
        \<not> isConnected (run initial_conn evs) \<and>
        \<not> health_isConnected (run initial_conn evs))"
proof -
  assume m: "marked_while_closed initial_conn evs"
  have "breaker_inv initial_conn"
    by (simp add: breaker_inv_def initial_conn_def)
  then have "breaker_inv (run initial_conn evs)"
    using m by (rule run_breaker_inv)
  then show ?thesis
    by (simp add: breaker_inv_def)
qed

text \<open>
  The theorem on a run that opens the breaker after the connection was up: the service
  is initialised, the client connects and is ready, the connection test succeeds, then
  five errors arrive and the connection closes.
\<close>

theorem breaker_open_implies_disconnected_witness:
  "marked_while_closed initial_conn
     [(0, InitializeConnection Prepared), (1, Connect), (2, Ready), (3, TestReply (Pong 2)),
      (4, Error ''e''), (5, Error ''e''), (6, Error ''e''), (7, Error ''e''),
      (8, Error ''e''), (9, Close)] \<and>
   circuitBreakerOpen
     (run initial_conn
        [(0, InitializeConnection Prepared), (1, Connect), (2, Ready),
         (3, TestReply (Pong 2)), (4, Error ''e''), (5, Error ''e''), (6, Error ''e''),
         (7, Error ''e''), (8, Error ''e''), (9, Close)]) \<and>
   \<not> isConnected
     (run initial_conn
        [(0, InitializeConnection Prepared), (1, Connect), (2, Ready),
         (3, TestReply (Pong 2)), (4, Error ''e''), (5, Error ''e''), (6, Error ''e''),
         (7, Error ''e''), (8, Error ''e''), (9, Close)]) \<and>
   \<not> health_isConnected
     (run initial_conn
        [(0, InitializeConnection Prepared), (1, Connect), (2, Ready),
         (3, TestReply (Pong 2)), (4, Error ''e''), (5, Error ''e''), (6, Error ''e''),
         (7, Error ''e''), (8, Error ''e''), (9, Close)])"
proof -
  let ?evs = "[(0::int, InitializeConnection Prepared), (1, Connect), (2, Ready),
               (3, TestReply (Pong 2)), (4, Error ''e''), (5, Error ''e''),
               (6, Error ''e''), (7, Error ''e''), (8, Error ''e''), (9, Close)]"
  have h: "marked_while_closed initial_conn ?evs"
    by (simp add: initial_conn_def initializeConnection_begin_def testConnection_end_def
          on_connect_def on_ready_def on_error_def on_close_def attemptReconnect_def
          handleConnectionError_def Let_def circuitBreakerThreshold_def)
  have o: "circuitBreakerOpen (run initial_conn ?evs)"
    by (simp add: run_def initial_conn_def initializeConnection_begin_def
          testConnection_end_def on_connect_def on_ready_def on_error_def on_close_def
          attemptReconnect_def handleConnectionError_def Let_def circuitBreakerThreshold_def
          maxReconnectAttempts_def)
  show ?thesis
    using breaker_open_implies_disconnected [OF h] h o by simp
qed

section \<open>Properties of the concurrency controller\<close>

lemma queued_of_append: "queued_of j (a @ b) = queued_of j a @ queued_of j b"
  by (induction j a rule: queued_of.induct) simp_all

lemma dequeued_of_append: "dequeued_of j (a @ b) = dequeued_of j a @ dequeued_of j b"
  by (induction j a rule: dequeued_of.induct) simp_all

lemma processQueue_step:
  assumes "currentRunning l < maxConcurrent l" "queue l \<noteq> [] \<longrightarrow> currentRunning l + 1 = maxConcurrent l"
     and "processQueue jt l = (tr, l')"
  shows "slot_inv l' \<and> maxConcurrent l' = maxConcurrent l \<and>
         queued_of jt tr = [] \<and> queue l = dequeued_of jt tr @ queue l'"
proof (cases "queue l")
  case Nil
  with assms show ?thesis by (auto simp: processQueue_def slot_inv_def)
next
  case (Cons w rest)
  with assms show ?thesis by (auto simp: processQueue_def slot_inv_def)
qed

lemma acquireSlot_step:
  assumes "ls jt = Some l" "slot_inv l" "acquireSlot j w ls = (tr, ls')"
  shows "\<exists>l'. ls' jt = Some l' \<and> slot_inv l' \<and> maxConcurrent l' = maxConcurrent l \<and>
          queue l @ queued_of jt tr = dequeued_of jt tr @ queue l'"
proof (cases "j = jt")
  case True
  with assms show ?thesis
    by (cases "currentRunning l < maxConcurrent l") (auto simp: acquireSlot_def slot_inv_def)
next
  case False
  with assms show ?thesis
    by (cases "ls j") (auto simp: acquireSlot_def split: if_splits)
qed

lemma release_step:
  assumes "ls jt = Some l" "slot_inv l" "release j ls = (tr, ls')"
  shows "\<exists>l'. ls' jt = Some l' \<and> slot_inv l' \<and> maxConcurrent l' = maxConcurrent l \<and>
          queue l @ queued_of jt tr = dequeued_of jt tr @ queue l'"
proof (cases "ls j")
  case None
  with assms show ?thesis by (auto simp: release_def)
next
  case (Some lj)
  obtain t1 l1 where p: "processQueue j (lj\<lparr>currentRunning := currentRunning lj - 1\<rparr>) = (t1, l1)"
    by (cases "processQueue j (lj\<lparr>currentRunning := currentRunning lj - 1\<rparr>)")
  from assms(3) Some p have tr: "tr = Released j # t1" and ls': "ls' = ls(j \<mapsto> l1)"
    by (simp_all add: release_def)
  show ?thesis
  proof (cases "j = jt")
    case True
    with Some assms(1) have lj: "lj = l" by simp
    have "slot_inv l1 \<and> maxConcurrent l1 = maxConcurrent l \<and>
         queued_of jt t1 = [] \<and> queue l = dequeued_of jt t1 @ queue l1"
      using processQueue_step [of "l\<lparr>currentRunning := currentRunning l - 1\<rparr>" jt t1 l1] assms(2) p lj True
      by (simp add: slot_inv_def)
    then show ?thesis using tr ls' True by simp
  next
    case False
    have q: "queued_of jt t1 = [] \<and> dequeued_of jt t1 = []"
      using p False by (auto simp: processQueue_def split: list.splits if_splits)
    show ?thesis using tr ls' False assms(1,2) q by simp
  qed
qed

lemma exec_op_step:
  assumes "ls jt = Some l" "slot_inv l" "exec_op x ls = (tr, ls')"
  shows "\<exists>l'. ls' jt = Some l' \<and> slot_inv l' \<and> maxConcurrent l' = maxConcurrent l \<and>
          queue l @ queued_of jt tr = dequeued_of jt tr @ queue l'"
proof (cases x)
  case (AcquireSlot j w)
  with assms show ?thesis using acquireSlot_step by simp
next
  case (Release j)
  with assms show ?thesis using release_step by simp
qed

lemma run_ops_inv:
  assumes "ls jt = Some l" "slot_inv l" "run_ops ls xs = (tr, ls')"
  shows "\<exists>l'. ls' jt = Some l' \<and> slot_inv l' \<and> maxConcurrent l' = maxConcurrent l \<and>
          queue l @ queued_of jt tr = dequeued_of jt tr @ queue l'"
  using assms
proof (induction xs arbitrary: ls l tr ls')
  case Nil
  then show ?case by simp
next
  case (Cons x xs)
  obtain t1 ls1 where e: "exec_op x ls = (t1, ls1)" by (cases "exec_op x ls")
  obtain t2 ls2 where r: "run_ops ls1 xs = (t2, ls2)" by (cases "run_ops ls1 xs")
  from Cons.prems(3) e r have tr: "tr = t1 @ t2" and ls': "ls' = ls2" by simp_all
  from exec_op_step [OF Cons.prems(1,2) e] obtain l1 where
    l1: "ls1 jt = Some l1" "slot_inv l1" "maxConcurrent l1 = maxConcurrent l"
        "queue l @ queued_of jt t1 = dequeued_of jt t1 @ queue l1" by blast
  from Cons.IH [OF l1(1,2) r] obtain l2 where
    l2: "ls2 jt = Some l2" "slot_inv l2" "maxConcurrent l2 = maxConcurrent l1"
        "queue l1 @ queued_of jt t2 = dequeued_of jt t2 @ queue l2" by blast
  have "queue l @ queued_of jt (t1 @ t2) = dequeued_of jt (t1 @ t2) @ queue l2"
    using l1(4) l2(4) by (simp add: queued_of_append dequeued_of_append) (metis append.assoc)
  then show ?case using l2 l1 tr ls' by simp
qed

lemma initial_limits_inv: "initial_limits jobType = Some l0 \<Longrightarrow> slot_inv l0"
  by (auto simp: initial_limits_def slot_inv_def split: if_splits)

lemma resolved_queued_only_by_release:
  "ResolvedQueued jobType w \<in> set (fst (exec_op x ls)) \<Longrightarrow> x = Release jobType"
proof (cases x)
  case (AcquireSlot j v)
  assume "ResolvedQueued jobType w \<in> set (fst (exec_op x ls))"
  with AcquireSlot show ?thesis
    by (auto simp: acquireSlot_def split: option.splits if_splits)
next
  case (Release j)
  assume "ResolvedQueued jobType w \<in> set (fst (exec_op x ls))"
  with Release show ?thesis
    by (auto simp: release_def processQueue_def Let_def
          split: option.splits if_splits list.splits prod.splits)
qed

text \<open>
  C3. For every configured job type and every sequence \<open>ops\<close> of \<open>acquireSlot\<close> and release
  calls from the service as constructed, the entry keeps its \<open>maxConcurrent\<close> and its
  \<open>currentRunning\<close> is at most \<open>maxConcurrent\<close> (every prefix of a sequence is a sequence,
  so this holds at every point), and while a caller is queued no slot is free. In the
  state reached:
  \<^item> an \<open>acquireSlot\<close> arriving while \<open>currentRunning < maxConcurrent\<close> is resolved at once
    and takes a slot;
  \<^item> an \<open>acquireSlot\<close> arriving while \<open>currentRunning = maxConcurrent\<close> resolves nothing and
    appends its continuation at the end of the queue: the caller is suspended;
  \<^item> a release with an empty queue decrements \<open>currentRunning\<close>;
  \<^item> a release with a non-empty queue resolves the caller at the head of the queue, and
    no other, and hands it the freed slot (\<open>currentRunning\<close> is again \<open>maxConcurrent\<close>);
  \<^item> a queued continuation is resolved by nothing but a release of its job type.
  Over the whole sequence, the callers queued, in arrival order, are the callers resolved
  from the queue, in resolution order, followed by the callers still queued: strict FIFO.
\<close>

theorem currentRunning_bounded_fifo:
  assumes cfg: "initial_limits jobType = Some l0"
  shows
   "\<exists>l. snd (run_ops initial_limits ops) jobType = Some l \<and>
        maxConcurrent l = maxConcurrent l0 \<and>
        currentRunning l \<le> maxConcurrent l \<and>
        (queue l \<noteq> [] \<longrightarrow> currentRunning l = maxConcurrent l) \<and>
        queued_of jobType (fst (run_ops initial_limits ops))
          = dequeued_of jobType (fst (run_ops initial_limits ops)) @ queue l \<and>
        (currentRunning l < maxConcurrent l \<longrightarrow>
           acquireSlot jobType w (snd (run_ops initial_limits ops))
             = ([Resolved jobType w],
                (snd (run_ops initial_limits ops))
                  (jobType \<mapsto> l\<lparr>currentRunning := currentRunning l + 1\<rparr>))) \<and>
        (currentRunning l = maxConcurrent l \<longrightarrow>
           acquireSlot jobType w (snd (run_ops initial_limits ops))
             = ([Queueing jobType w],
                (snd (run_ops initial_limits ops))
                  (jobType \<mapsto> l\<lparr>queue := queue l @ [w]\<rparr>))) \<and>
        (queue l = [] \<longrightarrow>
           release jobType (snd (run_ops initial_limits ops))
             = ([Released jobType],
                (snd (run_ops initial_limits ops))
                  (jobType \<mapsto> l\<lparr>currentRunning := currentRunning l - 1\<rparr>))) \<and>
        (\<forall>v rest. queue l = v # rest \<longrightarrow>
           release jobType (snd (run_ops initial_limits ops))
             = ([Released jobType, ResolvedQueued jobType v],
                (snd (run_ops initial_limits ops))
                  (jobType \<mapsto> l\<lparr>queue := rest, currentRunning := maxConcurrent l\<rparr>))) \<and>
        (\<forall>x ls v. ResolvedQueued jobType v \<in> set (fst (exec_op x ls))
           \<longrightarrow> x = Release jobType)"
proof -
  obtain tr ls where r: "run_ops initial_limits ops = (tr, ls)"
    by (cases "run_ops initial_limits ops")
  have q0: "queue l0 = []"
    using cfg by (auto simp: initial_limits_def split: if_splits)
  from run_ops_inv [OF cfg initial_limits_inv [OF cfg] r] obtain l where
    l: "ls jobType = Some l" "slot_inv l" "maxConcurrent l = maxConcurrent l0"
       "queue l0 @ queued_of jobType tr = dequeued_of jobType tr @ queue l"
    by blast
  have free: "currentRunning l < maxConcurrent l \<longrightarrow>
      acquireSlot jobType w ls
        = ([Resolved jobType w],
           ls(jobType \<mapsto> l\<lparr>currentRunning := currentRunning l + 1\<rparr>))"
    using l(1) by (simp add: acquireSlot_def)
  have full: "currentRunning l = maxConcurrent l \<longrightarrow>
      acquireSlot jobType w ls
        = ([Queueing jobType w], ls(jobType \<mapsto> l\<lparr>queue := queue l @ [w]\<rparr>))"
    using l(1) by (simp add: acquireSlot_def)
  have idle: "queue l = [] \<longrightarrow>
      release jobType ls
        = ([Released jobType],
           ls(jobType \<mapsto> l\<lparr>currentRunning := currentRunning l - 1\<rparr>))"
    using l(1) by (simp add: release_def processQueue_def)
  have hand: "\<forall>v rest. queue l = v # rest \<longrightarrow>
      release jobType ls
        = ([Released jobType, ResolvedQueued jobType v],
           ls(jobType \<mapsto> l\<lparr>queue := rest, currentRunning := maxConcurrent l\<rparr>))"
    using l(1,2) by (auto simp: release_def processQueue_def slot_inv_def)
  show ?thesis
    using l q0 free full idle hand resolved_queued_only_by_release
    by (simp add: r slot_inv_def)
qed

text \<open>
  The theorem on the job type with one slot: three callers arrive, the first is resolved
  at once, the second and third are queued; the first release resolves the second
  caller, the next release the third, and the queue is empty.
\<close>

theorem currentRunning_bounded_fifo_witness:
  "initial_limits ''dead-letter''
     = Some \<lparr>maxConcurrent = 1, currentRunning = 0, queue = []\<rparr> \<and>
   run_ops initial_limits
     [AcquireSlot ''dead-letter'' 1, AcquireSlot ''dead-letter'' 2,
      AcquireSlot ''dead-letter'' 3]
     = ([Resolved ''dead-letter'' 1, Queueing ''dead-letter'' 2, Queueing ''dead-letter'' 3],
        initial_limits
          (''dead-letter'' \<mapsto> \<lparr>maxConcurrent = 1, currentRunning = 1, queue = [2, 3]\<rparr>)) \<and>
   release ''dead-letter''
     (snd (run_ops initial_limits
             [AcquireSlot ''dead-letter'' 1, AcquireSlot ''dead-letter'' 2,
              AcquireSlot ''dead-letter'' 3]))
     = ([Released ''dead-letter'', ResolvedQueued ''dead-letter'' 2],
        initial_limits
          (''dead-letter'' \<mapsto> \<lparr>maxConcurrent = 1, currentRunning = 1, queue = [3]\<rparr>)) \<and>
   fst (run_ops initial_limits
          [AcquireSlot ''dead-letter'' 1, AcquireSlot ''dead-letter'' 2,
           AcquireSlot ''dead-letter'' 3, Release ''dead-letter'', Release ''dead-letter''])
     = [Resolved ''dead-letter'' 1, Queueing ''dead-letter'' 2, Queueing ''dead-letter'' 3,
        Released ''dead-letter'', ResolvedQueued ''dead-letter'' 2,
        Released ''dead-letter'', ResolvedQueued ''dead-letter'' 3]"
proof -
  let ?acq = "[AcquireSlot ''dead-letter'' 1, AcquireSlot ''dead-letter'' 2,
               AcquireSlot ''dead-letter'' 3]"
  let ?full = "\<lparr>maxConcurrent = 1, currentRunning = 1, queue = [2, 3::nat]\<rparr>"
  have h: "initial_limits ''dead-letter''
             = Some \<lparr>maxConcurrent = 1, currentRunning = 0, queue = []\<rparr>"
    by (simp add: initial_limits_def)
  have a: "run_ops initial_limits ?acq
             = ([Resolved ''dead-letter'' 1, Queueing ''dead-letter'' 2,
                 Queueing ''dead-letter'' 3],
                initial_limits(''dead-letter'' \<mapsto> ?full))"
    by (simp add: acquireSlot_def h)
  from currentRunning_bounded_fifo [OF h, of ?acq 0] obtain l where
    l: "snd (run_ops initial_limits ?acq) ''dead-letter'' = Some l"
    and hand: "\<forall>v rest. queue l = v # rest \<longrightarrow>
           release ''dead-letter'' (snd (run_ops initial_limits ?acq))
             = ([Released ''dead-letter'', ResolvedQueued ''dead-letter'' v],
                (snd (run_ops initial_limits ?acq))
                  (''dead-letter'' \<mapsto> l\<lparr>queue := rest, currentRunning := maxConcurrent l\<rparr>))"
    by blast
  from l a have l': "l = ?full" by simp
  have b: "release ''dead-letter'' (snd (run_ops initial_limits ?acq))
     = ([Released ''dead-letter'', ResolvedQueued ''dead-letter'' 2],
        initial_limits
          (''dead-letter'' \<mapsto> \<lparr>maxConcurrent = 1, currentRunning = 1, queue = [3]\<rparr>))"
    using hand l' a by simp
  have c: "fst (run_ops initial_limits
          [AcquireSlot ''dead-letter'' 1, AcquireSlot ''dead-letter'' 2,
           AcquireSlot ''dead-letter'' 3, Release ''dead-letter'', Release ''dead-letter''])
     = [Resolved ''dead-letter'' 1, Queueing ''dead-letter'' 2, Queueing ''dead-letter'' 3,
        Released ''dead-letter'', ResolvedQueued ''dead-letter'' 2,
        Released ''dead-letter'', ResolvedQueued ''dead-letter'' 3]"
    by (simp add: acquireSlot_def release_def processQueue_def h)
  show ?thesis
    using h a b c by simp
qed

section \<open>Properties of the hash ring\<close>

lemma string_of_nat_examples:
  "string_of_nat 0 = ''0''" "string_of_nat 7 = ''7''" "string_of_nat 159 = ''159''"
  by code_simp+

lemma length_virtual_points: "length (virtual_points h n) = 160"
  by (simp add: virtual_points_def virtualNodes_def)

lemma length_concat_points: "length (concat (map (virtual_points h) ns)) = 160 * length ns"
  by (induction ns) (simp_all add: length_virtual_points)

lemma length_buildRing: "length (buildRing h ns) = 160 * length ns"
  by (simp add: buildRing_def length_concat_points)

lemma sorted_buildRing: "sorted (map hash (buildRing h ns))"
  by (simp add: buildRing_def)

lemma mset_buildRing: "mset (buildRing h ns) = mset (concat (map (virtual_points h) ns))"
  by (simp add: buildRing_def)

lemma set_node_points: "node ` set (virtual_points h n) = {n}"
proof -
  have "node ` set (virtual_points h n) = (\<lambda>i. n) ` {0..<160::nat}"
    by (simp add: virtual_points_def virtualNodes_def image_image)
  also have "\<dots> = {n}"
    by (rule image_constant [of 0]) simp
  finally show ?thesis .
qed

lemma set_buildRing_nodes: "node ` set (buildRing h ns) = set ns"
proof -
  have "set (buildRing h ns) = (\<Union>n\<in>set ns. set (virtual_points h n))"
    by (simp add: buildRing_def)
  then have "node ` set (buildRing h ns) = (\<Union>n\<in>set ns. node ` set (virtual_points h n))"
    by (simp add: image_UN)
  then show ?thesis by (simp add: set_node_points)
qed

lemma ring_search_Some: "ring_search hk rg = Some n \<Longrightarrow> n \<in> node ` set rg"
  by (induction rg) (auto split: if_splits)

lemma ring_search_first:
  "i < length rg \<Longrightarrow> hk \<le> hash (rg ! i) \<Longrightarrow> (\<forall>j<i. hash (rg ! j) < hk) \<Longrightarrow>
     ring_search hk rg = Some (node (rg ! i))"
proof (induction rg arbitrary: i)
  case Nil
  then show ?case by simp
next
  case (Cons e rg)
  show ?case
  proof (cases i)
    case 0
    with Cons.prems show ?thesis by simp
  next
    case (Suc k)
    from Cons.prems(3) Suc have "hash e < hk" by auto
    then have e: "\<not> hk \<le> hash e" by (simp add: not_le)
    have "\<forall>j<k. hash (rg ! j) < hk"
      using Cons.prems(3) Suc by auto
    then have "ring_search hk rg = Some (node (rg ! k))"
      using Cons.IH [of k] Cons.prems Suc by simp
    then show ?thesis using e Suc by simp
  qed
qed

lemma ring_search_None: "(\<forall>e\<in>set rg. hash e < hk) \<Longrightarrow> ring_search hk rg = None"
  by (induction rg) auto

lemma ring_lookup_in: "rg \<noteq> [] \<Longrightarrow> \<exists>n\<in>node ` set rg. ring_lookup hk rg = Inr n"
proof (cases "ring_search hk rg")
  case None
  assume "rg \<noteq> []"
  then obtain e es where "rg = e # es" by (cases rg) auto
  with None show ?thesis by (simp add: ring_lookup_def)
next
  case (Some n)
  then show ?thesis using ring_search_Some [OF Some] by (simp add: ring_lookup_def)
qed

text \<open>
  C5. The ring built from a node list \<open>ns\<close> has 160 entries for each node of the list: it
  is, as a multiset, the entries \<open>(h (n @ '':'' @ i), n)\<close> for \<open>n\<close> in \<open>ns\<close> and \<open>i\<close> from 0
  up to 160, and it is sorted by hash, ascending. On any ring, \<open>getNodeForKey\<close> returns the
  node of the first entry whose hash is at least the hash of the key; when every entry's
  hash is below the key's and the ring has an entry, it returns the node of the first
  entry. The result is a function of the ring and the key's hash alone.
\<close>

theorem hash_ring_lookup:
  "length (buildRing h ns) = 160 * length ns \<and>
   mset (buildRing h ns)
     = mset (concat (map (\<lambda>n. map (\<lambda>i. \<lparr>hash = h (n @ '':'' @ string_of_nat i), node = n\<rparr>)
                                  [0..<160]) ns)) \<and>
   sorted (map hash (buildRing h ns)) \<and>
   (\<forall>i<length (ring st).
      h key \<le> hash (ring st ! i) \<and> (\<forall>j<i. hash (ring st ! j) < h key)
        \<longrightarrow> getNodeForKey h st key = Inr (node (ring st ! i))) \<and>
   ((\<forall>e\<in>set (ring st). hash e < h key) \<and> ring st \<noteq> []
      \<longrightarrow> getNodeForKey h st key = Inr (node (ring st ! 0))) \<and>
   (ring st = ring st' \<and> h key = h key'
      \<longrightarrow> getNodeForKey h st key = getNodeForKey h st' key')"
proof -
  have a: "length (buildRing h ns) = 160 * length ns"
    by (rule length_buildRing)
  have "virtual_points h
          = (\<lambda>n. map (\<lambda>i. \<lparr>hash = h (n @ '':'' @ string_of_nat i), node = n\<rparr>) [0..<160])"
    by (rule ext) (simp add: virtual_points_def virtualNodes_def)
  then have b: "mset (buildRing h ns)
     = mset (concat (map (\<lambda>n. map (\<lambda>i. \<lparr>hash = h (n @ '':'' @ string_of_nat i), node = n\<rparr>)
                                  [0..<160]) ns))"
    using mset_buildRing [of h ns] by simp
  have c: "sorted (map hash (buildRing h ns))"
    by (rule sorted_buildRing)
  have d: "\<forall>i<length (ring st).
      h key \<le> hash (ring st ! i) \<and> (\<forall>j<i. hash (ring st ! j) < h key)
        \<longrightarrow> getNodeForKey h st key = Inr (node (ring st ! i))"
    by (simp add: getNodeForKey_def ring_lookup_def ring_search_first)
  have e: "(\<forall>e\<in>set (ring st). hash e < h key) \<and> ring st \<noteq> []
      \<longrightarrow> getNodeForKey h st key = Inr (node (ring st ! 0))"
  proof (cases "ring st")
    case Nil
    then show ?thesis by simp
  next
    case (Cons x xs)
    show ?thesis
    proof
      assume "(\<forall>e\<in>set (ring st). hash e < h key) \<and> ring st \<noteq> []"
      then have "ring_search (h key) (ring st) = None"
        by (simp add: ring_search_None)
      then show "getNodeForKey h st key = Inr (node (ring st ! 0))"
        using Cons by (simp add: getNodeForKey_def ring_lookup_def)
    qed
  qed
  have f: "ring st = ring st' \<and> h key = h key'
      \<longrightarrow> getNodeForKey h st key = getNodeForKey h st' key'"
    by (simp add: getNodeForKey_def)
  show ?thesis using a b c d e f by blast
qed

text \<open>
  The lookup on a ring of two entries, with a hash that sends \<open>k1\<close> between the two
  entries and every other key beyond the last one.
\<close>

theorem hash_ring_lookup_witness:
  "getNodeForKey (\<lambda>k. if k = ''k1'' then 15 else 25)
     \<lparr>ch_nodes = [''a'', ''b''],
      ring = [\<lparr>hash = 10, node = ''a''\<rparr>, \<lparr>hash = 20, node = ''b''\<rparr>]\<rparr> ''k1'' = Inr ''b'' \<and>
   getNodeForKey (\<lambda>k. if k = ''k1'' then 15 else 25)
     \<lparr>ch_nodes = [''a'', ''b''],
      ring = [\<lparr>hash = 10, node = ''a''\<rparr>, \<lparr>hash = 20, node = ''b''\<rparr>]\<rparr> ''k2'' = Inr ''a''"
proof -
  let ?h = "\<lambda>k. if k = ''k1'' then 15 else (25 :: 32 word)"
  let ?st = "\<lparr>ch_nodes = [''a'', ''b''],
              ring = [\<lparr>hash = 10, node = ''a''\<rparr>, \<lparr>hash = 20, node = ''b''\<rparr>]\<rparr>"
  note t1 = hash_ring_lookup [of ?h "[]" ?st "''k1''" ?st "''k1''"]
  note t2 = hash_ring_lookup [of ?h "[]" ?st "''k2''" ?st "''k2''"]
  have i1: "(1::nat) < length (ring ?st) \<and> ?h ''k1'' \<le> hash (ring ?st ! 1) \<and>
            (\<forall>j<1. hash (ring ?st ! j) < ?h ''k1'')"
    by simp
  have a: "getNodeForKey ?h ?st ''k1'' = Inr (node (ring ?st ! 1))"
    using t1 i1 by blast
  have i2: "(\<forall>e\<in>set (ring ?st). hash e < ?h ''k2'') \<and> ring ?st \<noteq> []"
    by simp
  have b: "getNodeForKey ?h ?st ''k2'' = Inr (node (ring ?st ! 0))"
    using t2 i2 by blast
  show ?thesis using a b by simp
qed

text \<open>
  C10. A strategy built from a non-empty node list answers every key with one of its
  nodes. A strategy built from the empty list has the empty ring, and \<open>getNodeForKey\<close>
  and \<open>getNodeForPartition\<close> fail on it with a TypeError for every key and partition.
  \<open>rebalanceKeys keys []\<close> installs such a strategy: afterwards both lookups fail, and
  \<open>getConnectionForKey\<close> fails on a healthy connection; the call itself fails as soon as
  there is a key to distribute.
\<close>

theorem getNodeForKey_needs_nodes:
  "(ns \<noteq> [] \<longrightarrow>
      (\<exists>n\<in>set ns. getNodeForKey h (ConsistentHashingStrategy h ns) key = Inr n)) \<and>
   ring (ConsistentHashingStrategy h []) = [] \<and>
   getNodeForKey h (ConsistentHashingStrategy h []) key = Inl TypeError \<and>
   getNodeForPartition h (ConsistentHashingStrategy h []) p = Inl TypeError \<and>
   getNodeForKey h (partitioningStrategy (snd (rebalanceKeys h svc keys []))) key
     = Inl TypeError \<and>
   getNodeForPartition h (partitioningStrategy (snd (rebalanceKeys h svc keys []))) p
     = Inl TypeError \<and>
   (isHealthy c \<longrightarrow>
      getConnectionForKey h (snd (rebalanceKeys h svc keys [])) c key = Inl TypeError) \<and>
   (keys \<noteq> [] \<longrightarrow> fst (rebalanceKeys h svc keys []) = Inl TypeError)"
proof -
  have e: "ring (ConsistentHashingStrategy h []) = []"
    by (simp add: ConsistentHashingStrategy_def buildRing_def)
  have a: "ns \<noteq> [] \<longrightarrow>
      (\<exists>n\<in>set ns. getNodeForKey h (ConsistentHashingStrategy h ns) key = Inr n)"
  proof
    assume "ns \<noteq> []"
    then have "buildRing h ns \<noteq> []"
      using length_buildRing [of h ns] by auto
    from ring_lookup_in [OF this, of "h key"]
    show "\<exists>n\<in>set ns. getNodeForKey h (ConsistentHashingStrategy h ns) key = Inr n"
      by (simp add: set_buildRing_nodes getNodeForKey_def ConsistentHashingStrategy_def)
  qed
  have kk: "getNodeForKey h (ConsistentHashingStrategy h []) x = Inl TypeError" for x
    by (simp add: getNodeForKey_def ring_lookup_def e)
  have k: "getNodeForKey h (ConsistentHashingStrategy h []) key = Inl TypeError"
    by (rule kk)
  have q: "getNodeForPartition h (ConsistentHashingStrategy h []) p = Inl TypeError"
    by (simp add: getNodeForPartition_def ring_lookup_def e)
  have s: "partitioningStrategy (snd (rebalanceKeys h svc keys []))
             = ConsistentHashingStrategy h []"
    by (simp add: rebalanceKeys_def Let_def)
  have g: "isHealthy c \<longrightarrow>
      getConnectionForKey h (snd (rebalanceKeys h svc keys [])) c key = Inl TypeError"
    by (simp add: getConnectionForKey_def s k)
  have r: "keys \<noteq> [] \<longrightarrow> fst (rebalanceKeys h svc keys []) = Inl TypeError"
    by (cases keys) (simp_all add: rebalanceKeys_def Let_def distributeKeys_def kk)
  show ?thesis using a e k q g r by (simp add: s)
qed

text \<open>
  The service as constructed has three nodes and answers with one of them; after
  \<open>rebalanceKeys [''k''] []\<close> the call has thrown and a lookup on a healthy connection
  throws.
\<close>

theorem getNodeForKey_needs_nodes_witness:
  "(\<exists>n\<in>set [''redis-node-1:6379'', ''redis-node-2:6379'', ''redis-node-3:6379''].
      getNodeForKey (\<lambda>k. word_of_nat (length k))
        (partitioningStrategy (RedisPartitioningService (\<lambda>k. word_of_nat (length k))))
        ''rate_limit:login'' = Inr n) \<and>
   fst (rebalanceKeys (\<lambda>k. word_of_nat (length k))
          (RedisPartitioningService (\<lambda>k. word_of_nat (length k))) [''k''] [])
     = Inl TypeError \<and>
   getConnectionForKey (\<lambda>k. word_of_nat (length k))
     (snd (rebalanceKeys (\<lambda>k. word_of_nat (length k))
             (RedisPartitioningService (\<lambda>k. word_of_nat (length k))) [''k''] []))
     (on_connect initial_conn) ''rate_limit:login'' = Inl TypeError"
proof -
  let ?h = "\<lambda>k :: string. (word_of_nat (length k) :: 32 word)"
  let ?ns = "[''redis-node-1:6379'', ''redis-node-2:6379'', ''redis-node-3:6379'']"
  have n: "?ns \<noteq> []" and k: "[''k''] \<noteq> ([] :: string list)"
    by simp_all
  have hc: "isHealthy (on_connect initial_conn)"
    by (simp add: isHealthy_def on_connect_def initial_conn_def)
  note t = getNodeForKey_needs_nodes
             [of ?ns ?h "''rate_limit:login''" 0 "RedisPartitioningService ?h" "[''k'']"
                 "on_connect initial_conn"]
  have a: "\<exists>n\<in>set ?ns. getNodeForKey ?h (ConsistentHashingStrategy ?h ?ns)
                           ''rate_limit:login'' = Inr n"
    using t n by blast
  have b: "fst (rebalanceKeys ?h (RedisPartitioningService ?h) [''k''] []) = Inl TypeError"
    using t k by blast
  have c: "getConnectionForKey ?h
             (snd (rebalanceKeys ?h (RedisPartitioningService ?h) [''k''] []))
             (on_connect initial_conn) ''rate_limit:login'' = Inl TypeError"
    using t hc by blast
  have p: "partitioningStrategy (RedisPartitioningService ?h)
             = ConsistentHashingStrategy ?h ?ns"
    by (simp add: RedisPartitioningService_def Let_def)
  show ?thesis using a b c unfolding p by blast
qed

section \<open>Properties of the rate limiter\<close>

lemma checkRedisRateLimit_throws:
  "\<forall>windowKey ttl. exec windowKey ttl = PipelineThrows \<Longrightarrow>
     checkRedisRateLimit exec clk key opts = Inl BackendError"
  by (simp add: checkRedisRateLimit_def Let_def)

lemma checkDistributed_throws:
  "\<forall>windowKey ttl. exec windowKey ttl = PipelineThrows \<Longrightarrow>
     \<exists>e. checkDistributedRedisRateLimit h svc c exec clk key opts = Inl e"
  by (simp add: checkDistributedRedisRateLimit_def checkRedisRateLimit_throws split: sum.splits)

lemma healthy_gate: "(isHealthy c \<and> \<not> isCircuitBreakerOpen c) = isHealthy c"
  by (auto simp: isHealthy_def isCircuitBreakerOpen_def)

lemma checkRateLimit_local:
  assumes "\<not> isHealthy c \<or> (\<forall>windowKey ttl. exec windowKey ttl = PipelineThrows) \<or>
           (\<exists>e. checkDistributedRedisRateLimit h svc c exec clk (generateKey key identifier) opts = Inl e)"
  shows "checkRateLimit h svc c exec clk key opts identifier store
           = checkMemoryRateLimit (generateKey key identifier) opts (t_memory clk) store"
proof -
  from assms consider "\<not> isHealthy c"
    | e where "checkDistributedRedisRateLimit h svc c exec clk (generateKey key identifier) opts = Inl e"
    using checkDistributed_throws [of exec h svc c clk "generateKey key identifier" opts] by blast
  then show ?thesis
  proof cases
    case 1
    then show ?thesis by (simp add: checkRateLimit_def Let_def healthy_gate)
  next
    case 2
    then show ?thesis by (simp add: checkRateLimit_def Let_def)
  qed
qed

lemma memory_fresh:
  "store k = None \<Longrightarrow>
     checkMemoryRateLimit k opts now store
       = (\<lparr>allowed = True, res_limit = limit opts, current = Num 1,
            remaining = Num (limit opts - 1), resetTime = Num (now + windowMs opts),
            retryAfter = Undefined\<rparr>,
          store(k \<mapsto> \<lparr>count = 1, win_resetTime = now + windowMs opts, win_limit = limit opts\<rparr>))"
  by (simp add: checkMemoryRateLimit_def Let_def)

lemma memory_next:
  "store k = Some w \<Longrightarrow> now \<le> win_resetTime w \<Longrightarrow>
     checkMemoryRateLimit k opts now store
       = (\<lparr>allowed = (count w + 1 \<le> limit opts), res_limit = limit opts,
            current = Num (count w + 1),
            remaining = Num (max 0 (limit opts - (count w + 1))),
            resetTime = Num (win_resetTime w),
            retryAfter = (if count w + 1 \<le> limit opts then Undefined
                          else Num (ceil_div (win_resetTime w - now) 1000))\<rparr>,
          store(k \<mapsto> w\<lparr>count := count w + 1\<rparr>))"
  by (simp add: checkMemoryRateLimit_def Let_def)

lemma memory_allowed_iff:
  "allowed (fst (checkMemoryRateLimit k opts now store)) \<longleftrightarrow>
     (case store k of None \<Rightarrow> True
      | Some w \<Rightarrow> win_resetTime w < now \<or> count w + 1 \<le> limit opts)"
  by (simp add: checkMemoryRateLimit_def Let_def split: option.splits)





text \<open>
  When the store rejects \<^verbatim>\<open>incr\<close>, the pipeline resolves with \<^verbatim>\<open>undefined\<close> in its slot:
  both comparisons with the limit are false, so the call is refused without a
  \<open>retryAfter\<close>, and \<open>remaining\<close> is \<^verbatim>\<open>NaN\<close>. Nothing is thrown, so the in-memory limiter
  is not consulted.
\<close>

lemma checkRedisRateLimit_rejected_incr:
  "exec (windowKey_of clk k opts) (pipeline_ttl opts) = PipelineResults Undefined t \<Longrightarrow>
     \<exists>r. checkRedisRateLimit exec clk k opts = Inr r \<and> \<not> allowed r \<and>
         retryAfter r = Undefined \<and> remaining r = NaN \<and> current r = Undefined"
  by (simp add: checkRedisRateLimit_def Let_def js_le_def js_gt_def js_minus_def js_max0_def)












lemma windowKey_same:
  "t_window clk div windowMs opts = t_window clk' div windowMs opts \<Longrightarrow>
     windowKey_of clk k opts = windowKey_of clk' k opts"
  by (simp add: windowKey_of_def)

text \<open>
  C1, as the claim states it, fails. The connection is healthy, the store throws on every
  pipeline, the limit is 1: the second call in the window is answered by the in-memory
  limiter with \<open>allowed = False\<close>.
\<close>

theorem checkRateLimit_fail_open_counterexample:
  "isHealthy (on_connect initial_conn) \<and>
   \<not> isCircuitBreakerOpen (on_connect initial_conn) \<and>
   \<not> allowed
       (checkRateLimit_calls length_hash (RedisPartitioningService length_hash)
          (on_connect initial_conn) backend_throws ''login''
          \<lparr>limit = 1, windowMs = 1000\<rparr> (Some ''10.0.0.1'')
          [at_instant 0, at_instant 1] Map.empty ! 1)"
proof -
  have l: "checkRateLimit length_hash (RedisPartitioningService length_hash)
             (on_connect initial_conn) backend_throws clk ''login''
             \<lparr>limit = 1, windowMs = 1000\<rparr> (Some ''10.0.0.1'') st
           = checkMemoryRateLimit (generateKey ''login'' (Some ''10.0.0.1''))
               \<lparr>limit = 1, windowMs = 1000\<rparr> (t_memory clk) st" for clk st
    by (rule checkRateLimit_local) (simp add: backend_throws_def)
  have h: "isHealthy (on_connect initial_conn) \<and>
           \<not> isCircuitBreakerOpen (on_connect initial_conn)"
    by (simp add: isHealthy_def isCircuitBreakerOpen_def on_connect_def initial_conn_def)
  show ?thesis
    using h by (simp add: l memory_fresh memory_next at_instant_def)
qed

text \<open>
  C1, amended. When the distributed check throws (in particular when the store throws on
  every pipeline), \<open>checkRateLimit\<close> raises nothing and returns what the in-memory limiter
  returns for the same full key: it falls back to local limiting. That result is
  \<open>allowed\<close> exactly when the key starts a new window (no entry, or the entry's reset
  time has passed) or the entry's count, with this call, is at most the limit.
\<close>

theorem checkRateLimit_falls_back_to_memory:
  "(((\<forall>windowKey ttl. exec windowKey ttl = PipelineThrows) \<or>
     checkDistributedRedisRateLimit h svc c exec clk (generateKey key identifier) opts
       = Inl e) \<longrightarrow>
      checkRateLimit h svc c exec clk key opts identifier store
        = checkMemoryRateLimit (generateKey key identifier) opts (t_memory clk) store) \<and>
   (allowed (fst (checkMemoryRateLimit k opts now st)) \<longleftrightarrow>
      (case st k of
         None \<Rightarrow> True
       | Some w \<Rightarrow> win_resetTime w < now \<or> count w + 1 \<le> limit opts))"
proof -
  have a: "((\<forall>windowKey ttl. exec windowKey ttl = PipelineThrows) \<or>
     checkDistributedRedisRateLimit h svc c exec clk (generateKey key identifier) opts
       = Inl e) \<longrightarrow>
      checkRateLimit h svc c exec clk key opts identifier store
        = checkMemoryRateLimit (generateKey key identifier) opts (t_memory clk) store"
  proof
    assume "(\<forall>windowKey ttl. exec windowKey ttl = PipelineThrows) \<or>
       checkDistributedRedisRateLimit h svc c exec clk (generateKey key identifier) opts
         = Inl e"
    then show "checkRateLimit h svc c exec clk key opts identifier store
        = checkMemoryRateLimit (generateKey key identifier) opts (t_memory clk) store"
      by (intro checkRateLimit_local) blast
  qed
  show ?thesis using a memory_allowed_iff by blast
qed

text \<open>
  The theorem with a healthy connection and a store that throws: the first call of a
  window is allowed, and a call that finds the count at the limit of 1 is not.
\<close>

theorem checkRateLimit_falls_back_to_memory_witness:
  "allowed
     (fst (checkRateLimit length_hash (RedisPartitioningService length_hash)
             (on_connect initial_conn) backend_throws (at_instant 0) ''login''
             \<lparr>limit = 1, windowMs = 1000\<rparr> None Map.empty)) \<and>
   \<not> allowed
       (fst (checkRateLimit length_hash (RedisPartitioningService length_hash)
               (on_connect initial_conn) backend_throws (at_instant 1) ''login''
               \<lparr>limit = 1, windowMs = 1000\<rparr> None
               [generateKey ''login'' None \<mapsto>
                  \<lparr>count = 1, win_resetTime = 1000, win_limit = 1\<rparr>]))"
proof -
  have t: "\<forall>windowKey ttl. backend_throws windowKey ttl = PipelineThrows"
    by (simp add: backend_throws_def)
  note th = checkRateLimit_falls_back_to_memory
              [of backend_throws length_hash "RedisPartitioningService length_hash"
                  "on_connect initial_conn" _ "''login''" None "\<lparr>limit = 1, windowMs = 1000\<rparr>"]
  have a: "checkRateLimit length_hash (RedisPartitioningService length_hash)
             (on_connect initial_conn) backend_throws clk ''login''
             \<lparr>limit = 1, windowMs = 1000\<rparr> None st
           = checkMemoryRateLimit (generateKey ''login'' None)
               \<lparr>limit = 1, windowMs = 1000\<rparr> (t_memory clk) st" for clk st
    using th [of clk BackendError st] t by blast
  show ?thesis
    by (simp add: a memory_fresh memory_next at_instant_def)
qed




section \<open>Properties of the cache\<close>

lemma getPrefixedKey_malformed:
  "key = JNotString \<or> key = JString [] \<Longrightarrow> getPrefixedKey key = Inl InvalidCacheKeyError"
  by (auto simp: getPrefixedKey_def)


lemma isRedisAvailable_getMemory:
  "isRedisAvailable (snd (getMemory now k s)) = isRedisAvailable s"
  by (simp add: getMemory_def split: option.splits)

lemma get_try_flag:
  assumes "get_try parse r now key s = Inr (x, s')"
  shows "isRedisAvailable s' = isRedisAvailable s"
proof (cases "isRedisAvailable s")
  case True
  with assms show ?thesis
    by (auto simp: get_try_def split: sum.splits)
next
  case False
  with assms obtain pk where "getMemory now pk s = (x, s')"
    by (auto simp: get_try_def split: sum.splits)
  then have "s' = snd (getMemory now pk s)" by simp
  then show ?thesis by (simp add: isRedisAvailable_getMemory)
qed


lemma set_cache_invalid_key_rethrown:
  "isRedisAvailable s \<Longrightarrow> key = JNotString \<or> key = JString [] \<Longrightarrow>
     set_cache stringify h svc c r now now' key v ttl s = (Inl InvalidCacheKeyError, s, r)"
  by (simp add: set_cache_def set_try_def getPrefixedKey_malformed)

text \<open>
  C6, as the claim states it, fails. The service is initialised while the connection is
  healthy; the connection then closes, so the manager reports unhealthy; a \<open>get\<close> at
  that moment still returns the value held by the distributed store, of which the local
  map has nothing.
\<close>

theorem cache_get_health_counterexample:
  "\<not> isHealthy (on_close 10 (on_connect initial_conn)) \<and>
   fst (get json_text_parse \<lparr>up = True, kv = [cacheKeyPrefix @ ''k'' \<mapsto> (''v'', 1000)]\<rparr> 20
          (JString ''k'') (onModuleInit (on_connect initial_conn) unconfigured_cache))
     = Inr (Some ''v'') \<and>
   fst (getMemory 20 (cacheKeyPrefix @ ''k'')
          (onModuleInit (on_connect initial_conn) unconfigured_cache)) = None"
  by (simp add: isHealthy_def on_close_def on_connect_def initial_conn_def attemptReconnect_def
        get_def get_try_def getPrefixedKey_def safe_char_def getRedis_def redis_cmd_get_def
        redis_get_def onModuleInit_def unconfigured_cache_def getMemory_def json_text_parse_def)

text \<open>
  C6, amended. \<open>onModuleInit\<close> sets \<open>isRedisAvailable\<close> to what the connection manager
  reports at that moment, and neither \<open>get\<close> nor \<open>set\<close> changes it. For a well-formed
  key, \<open>get\<close> is served by the distributed store exactly when \<open>isRedisAvailable\<close> is
  true, and by the local map otherwise; when the distributed read throws it returns null
  and leaves the local map alone: no fallback in the call. \<open>set\<close> writes to the
  distributed store when \<open>isRedisAvailable\<close> is true and the breaker is closed at the
  call, and to the local map when that write throws; otherwise it writes to the local
  map.
\<close>

theorem cache_backend_fixed_at_init:
  "isRedisAvailable (onModuleInit cinit sinit) = isHealthy cinit \<and>
   isRedisAvailable (snd (get parse r now key s)) = isRedisAvailable s \<and>
   isRedisAvailable (fst (snd (set_cache stringify h svc c r now now' key v ttl s)))
     = isRedisAvailable s \<and>
   (getPrefixedKey key = Inr pk \<longrightarrow>
      (isRedisAvailable s \<longrightarrow>
         get parse r now key s
           = (case getRedis parse r now pk of
                Inl e \<Rightarrow> (Inr None, s)
              | Inr x \<Rightarrow> (Inr x, s))) \<and>
      (\<not> isRedisAvailable s \<longrightarrow>
         get parse r now key s
           = (Inr (fst (getMemory now pk s)), snd (getMemory now pk s))) \<and>
      (isRedisAvailable s \<and> \<not> isCircuitBreakerOpen c \<longrightarrow>
         set_cache stringify h svc c r now now' key v ttl s
           = (case setDistributedRedis stringify h svc c r now pk v ttl of
                Inr r' \<Rightarrow> (Inr (), s, r')
              | Inl e \<Rightarrow> (Inr (), setMemory pk v (now' + ttl * 1000) s, r))) \<and>
      (\<not> (isRedisAvailable s \<and> \<not> isCircuitBreakerOpen c) \<longrightarrow>
         set_cache stringify h svc c r now now' key v ttl s
           = (Inr (), setMemory pk v (now + ttl * 1000) s, r)))"
proof -
  have a: "isRedisAvailable (onModuleInit cinit sinit) = isHealthy cinit"
    by (simp add: onModuleInit_def)
  have b: "isRedisAvailable (snd (get parse r now key s)) = isRedisAvailable s"
  proof (cases "get_try parse r now key s")
    case (Inl e)
    then show ?thesis by (simp add: get_def)
  next
    case (Inr p)
    obtain x s' where p: "p = (x, s')" by (cases p)
    from Inr p get_try_flag [of parse r now key s x s'] show ?thesis
      by (simp add: get_def)
  qed
  have c: "isRedisAvailable (fst (snd (set_cache stringify h svc c r now now' key v ttl s)))
     = isRedisAvailable s"
    by (auto simp: set_cache_def set_try_def setMemory_def Let_def split: sum.splits prod.splits)
  have d: "getPrefixedKey key = Inr pk \<longrightarrow>
      (isRedisAvailable s \<longrightarrow>
         get parse r now key s
           = (case getRedis parse r now pk of
                Inl e \<Rightarrow> (Inr None, s)
              | Inr x \<Rightarrow> (Inr x, s))) \<and>
      (\<not> isRedisAvailable s \<longrightarrow>
         get parse r now key s
           = (Inr (fst (getMemory now pk s)), snd (getMemory now pk s)))"
    by (simp add: get_def get_try_def split: sum.splits prod.splits)
  have e: "getPrefixedKey key = Inr pk \<longrightarrow>
      (isRedisAvailable s \<and> \<not> isCircuitBreakerOpen c \<longrightarrow>
         set_cache stringify h svc c r now now' key v ttl s
           = (case setDistributedRedis stringify h svc c r now pk v ttl of
                Inr r' \<Rightarrow> (Inr (), s, r')
              | Inl e \<Rightarrow> (Inr (), setMemory pk v (now' + ttl * 1000) s, r))) \<and>
      (\<not> (isRedisAvailable s \<and> \<not> isCircuitBreakerOpen c) \<longrightarrow>
         set_cache stringify h svc c r now now' key v ttl s
           = (Inr (), setMemory pk v (now + ttl * 1000) s, r))"
    by (simp add: set_cache_def set_try_def Let_def split: sum.splits)
  show ?thesis using a b c d e by blast
qed

text \<open>
  The theorem after an initialisation with a healthy connection (reads go to the
  distributed store) and after one without (reads go to the local map, whatever the
  store holds).
\<close>

theorem cache_backend_fixed_at_init_witness:
  "isRedisAvailable (onModuleInit (on_connect initial_conn) unconfigured_cache) \<and>
   get json_text_parse \<lparr>up = True, kv = [cacheKeyPrefix @ ''k'' \<mapsto> (''v'', 1000)]\<rparr> 20
     (JString ''k'') (onModuleInit (on_connect initial_conn) unconfigured_cache)
     = (Inr (Some ''v''), onModuleInit (on_connect initial_conn) unconfigured_cache) \<and>
   get json_text_parse \<lparr>up = True, kv = [cacheKeyPrefix @ ''k'' \<mapsto> (''v'', 1000)]\<rparr> 20
     (JString ''k'') (onModuleInit initial_conn unconfigured_cache)
     = (Inr None, onModuleInit initial_conn unconfigured_cache)"
proof -
  let ?r = "\<lparr>up = True, kv = [cacheKeyPrefix @ ''k'' \<mapsto> (''v'', 1000::int)]\<rparr>"
  let ?s1 = "onModuleInit (on_connect initial_conn) unconfigured_cache"
  let ?s2 = "onModuleInit initial_conn unconfigured_cache"
  have k: "getPrefixedKey (JString ''k'') = Inr (cacheKeyPrefix @ ''k'')"
    by (simp add: getPrefixedKey_def safe_char_def)
  have h1: "isHealthy (on_connect initial_conn)" and h2: "\<not> isHealthy initial_conn"
    by (simp_all add: isHealthy_def on_connect_def initial_conn_def)
  note t1 = cache_backend_fixed_at_init
              [where cinit = "on_connect initial_conn" and sinit = unconfigured_cache
                 and parse = json_text_parse and r = ?r and now = 20
                 and key = "JString ''k''" and s = ?s1 and pk = "cacheKeyPrefix @ ''k''"]
  note t2 = cache_backend_fixed_at_init
              [where cinit = initial_conn and sinit = unconfigured_cache
                 and parse = json_text_parse and r = ?r and now = 20
                 and key = "JString ''k''" and s = ?s2 and pk = "cacheKeyPrefix @ ''k''"]
  have f1: "isRedisAvailable ?s1"
    using t1 h1 by blast
  have f2: "\<not> isRedisAvailable ?s2"
    using t2 h2 by blast
  have g1: "get json_text_parse ?r 20 (JString ''k'') ?s1
              = (case getRedis json_text_parse ?r 20 (cacheKeyPrefix @ ''k'') of
                   Inl e \<Rightarrow> (Inr None, ?s1)
                 | Inr x \<Rightarrow> (Inr x, ?s1))"
    using t1 k f1 by blast
  have g2: "get json_text_parse ?r 20 (JString ''k'') ?s2
              = (Inr (fst (getMemory 20 (cacheKeyPrefix @ ''k'') ?s2)),
                 snd (getMemory 20 (cacheKeyPrefix @ ''k'') ?s2))"
    using t2 k f2 by blast
  have r1: "getRedis json_text_parse ?r 20 (cacheKeyPrefix @ ''k'') = Inr (Some ''v'')"
    by (simp add: getRedis_def redis_cmd_get_def redis_get_def json_text_parse_def)
  have m2: "getMemory 20 (cacheKeyPrefix @ ''k'') ?s2 = (None, ?s2)"
    by (simp add: getMemory_def onModuleInit_def unconfigured_cache_def)
  show ?thesis
    using f1 g1 g2 by (simp add: r1 m2)
qed




end
